theory Spec2Isabelle
  imports Main
begin

section \<open>JavaScript objects used as dictionaries\<close>

text \<open>
  \<^verbatim>\<open>MenuBuilder.ts\<close> reads the path map and every path item through \<^verbatim>\<open>Object.keys\<close> and
  keeps its tags in a plain object (\<^verbatim>\<open>const tags: TagsInfoMap = {}\<close>). A \<open>Dict\<close> is the
  list of the own enumerable properties of such an object, in the order
  \<^verbatim>\<open>Object.keys\<close> lists them: keys that are array indices first, in ascending numeric
  order, then every other key in the order of its creation.
\<close>

type_synonym 'a Dict = "(string \<times> 'a) list"

definition isDigit :: "char \<Rightarrow> bool" where
  "isDigit c = (48 \<le> (of_char c :: nat) \<and> (of_char c :: nat) \<le> 57)"

definition decimal :: "string \<Rightarrow> nat" where
  "decimal k = foldl (\<lambda>n c. 10 * n + (of_char c - 48)) 0 k"

text \<open>An array index: the canonical decimal form of an integer from 0 to 2^32 - 2.\<close>

definition isArrayIndex :: "string \<Rightarrow> bool" where
  "isArrayIndex k =
     (case k of
        [] \<Rightarrow> False
      | c # cs \<Rightarrow>
          list_all isDigit k \<and> (if c = CHR ''0'' then cs = [] else True)
          \<and> decimal k < 4294967295)"

fun insertIndex :: "string \<Rightarrow> 'a \<Rightarrow> 'a Dict \<Rightarrow> 'a Dict" where
  "insertIndex k v [] = [(k, v)]"
| "insertIndex k v ((k', v') # d) =
     (if isArrayIndex k' \<and> decimal k' < decimal k then (k', v') # insertIndex k v d
      else (k, v) # (k', v') # d)"

text \<open>
  Writing the own property \<open>k\<close>: an own property keeps its place and takes the new
  value; a new one is created, where \<^verbatim>\<open>Object.keys\<close> will list it.
\<close>

definition dict_set :: "'a Dict \<Rightarrow> string \<Rightarrow> 'a \<Rightarrow> 'a Dict" where
  "dict_set d k v =
     (if k \<in> set (map fst d) then map (\<lambda>(k', v'). if k' = k then (k', v) else (k', v')) d
      else if isArrayIndex k then insertIndex k v d
      else d @ [(k, v)])"

section \<open>The data model\<close>

text \<open>
  Modelled from the spec: the types \<^verbatim>\<open>OpenAPIOperation\<close>, \<^verbatim>\<open>OpenAPIParameter\<close>,
  \<^verbatim>\<open>OpenAPITag\<close> and \<^verbatim>\<open>OpenAPISpec\<close> of \<^verbatim>\<open>../types\<close> (not part of the sources), with
  the fields \<^verbatim>\<open>MenuBuilder.ts\<close> reads. \<open>operationId\<close> stands for the fields of an
  operation that are only copied, a parameter is its name. A tag object has the
  properties \<^verbatim>\<open>name\<close>, \<^verbatim>\<open>description\<close> (a string, when present) and \<^verbatim>\<open>x-traitTag\<close> (a
  boolean, when present), and no other.
\<close>

type_synonym OpenAPIParameter = string

record OpenAPIOperation =
  tags :: "string list option"
  operationId :: "string option"

record OpenAPITag =
  name :: string
  description :: "string option"
  x_traitTag :: "bool option"

text \<open>Lines 12 to 22 and 25 to 28: \<^verbatim>\<open>TagInfo\<close>, \<^verbatim>\<open>ExtendedOpenAPIOperation\<close>, \<^verbatim>\<open>TagGroup\<close>.\<close>

record ExtendedOpenAPIOperation = OpenAPIOperation +
  pathName :: string
  httpVerb :: string
  pathParameters :: "OpenAPIParameter list"

record TagInfo = OpenAPITag +
  operations :: "ExtendedOpenAPIOperation list"
  used :: "bool option"

record TagGroup =
  group_name :: string
  group_tags :: "string list"

text \<open>
  Modelled from the spec: a path item and the API description of \<^verbatim>\<open>../types\<close>. The
  \<open>members\<close> of a path item are its own properties other than \<^verbatim>\<open>parameters\<close>, in
  \<^verbatim>\<open>Object.keys\<close> order, each value seen as an operation object (the code reads the
  values under operation names only); \<open>parameters\<close> is \<^verbatim>\<open>path.parameters\<close>.
\<close>

record OpenAPIPath =
  members :: "OpenAPIOperation Dict"
  parameters :: "OpenAPIParameter list option"

record OpenAPISpec =
  info_description :: "string option"
  spec_tags :: "OpenAPITag list option"
  paths :: "OpenAPIPath Dict"
  x_tagGroups :: "TagGroup list option"

section \<open>The tag map\<close>

text \<open>
  Line 23, \<^verbatim>\<open>TagsInfoMap\<close>, as the object the program works on: the \<open>entries\<close> are its
  own properties, which \<^verbatim>\<open>Object.keys\<close> lists. The map is made by an object literal
  (line 199), so its prototype is \<^verbatim>\<open>Object.prototype\<close>, until an assignment to the key
  \<^verbatim>\<open>__proto__\<close> replaces the prototype by the assigned tag: \<open>prototype\<close> is that tag, if
  there is one. \<^verbatim>\<open>Object.prototype\<close> is taken as the language defines it.
\<close>

record TagsInfoMap =
  entries :: "TagInfo Dict"
  prototype :: "TagInfo option"

definition object_keys :: "TagsInfoMap \<Rightarrow> string list" where
  "object_keys tagsMap = map fst (entries tagsMap)"

definition emptyTags :: TagsInfoMap where
  "emptyTags = \<lparr>entries = [], prototype = None\<rparr>"

definition objectPrototypeKeys :: "string list" where
  "objectPrototypeKeys =
     [''constructor'', ''hasOwnProperty'', ''isPrototypeOf'', ''propertyIsEnumerable'',
      ''toLocaleString'', ''toString'', ''valueOf'', ''__proto__'',
      ''__defineGetter__'', ''__defineSetter__'', ''__lookupGetter__'', ''__lookupSetter__'']"

text \<open>
  The own properties of a tag that has become the prototype of the map, as a read of
  the map finds them: the truthiness of the value under the key, if the tag has the
  key. \<^verbatim>\<open>operations\<close> is an array, which is truthy.
\<close>

definition prototypeMember :: "TagInfo \<Rightarrow> string \<Rightarrow> bool option" where
  "prototypeMember tag k =
     (if k = ''name'' then Some (name tag \<noteq> [])
      else if k = ''operations'' then Some True
      else if k = ''description'' then map_option (\<lambda>text'. text' \<noteq> []) (description tag)
      else if k = ''x-traitTag'' then x_traitTag tag
      else if k = ''used'' then used tag
      else None)"

text \<open>
  What \<^verbatim>\<open>tagsMap[k]\<close> evaluates to: \<open>Own\<close>, the tag of an own property; \<open>Prototype\<close>,
  the tag that is the prototype of the map, which the key \<^verbatim>\<open>__proto__\<close> reads;
  \<open>Inherited\<close>, a truthy value that is no tag (a member of \<^verbatim>\<open>Object.prototype\<close>,
  \<^verbatim>\<open>Object.prototype\<close> itself under \<^verbatim>\<open>__proto__\<close>, or a property of the tag that is the
  prototype); \<open>InheritedFalsy\<close>, a falsy property of the tag that is the prototype; or
  \<^verbatim>\<open>undefined\<close>.
\<close>

datatype 'a lookup = Undefined | Own 'a | Prototype 'a | Inherited | InheritedFalsy

definition dict_get :: "TagsInfoMap \<Rightarrow> string \<Rightarrow> TagInfo lookup" where
  "dict_get tagsMap k =
     (case map_of (entries tagsMap) k of
        Some tag \<Rightarrow> Own tag
      | None \<Rightarrow>
          (case prototype tagsMap of
             None \<Rightarrow> if k \<in> set objectPrototypeKeys then Inherited else Undefined
           | Some p \<Rightarrow>
               if k = ''__proto__'' then Prototype p
               else (case prototypeMember p k of
                       Some truthy \<Rightarrow> if truthy then Inherited else InheritedFalsy
                     | None \<Rightarrow> if k \<in> set objectPrototypeKeys then Inherited else Undefined)))"

text \<open>
  \<^verbatim>\<open>tagsMap[k] = tag\<close>: the key \<^verbatim>\<open>__proto__\<close> reaches the setter of
  \<^verbatim>\<open>Object.prototype\<close>, which makes the tag the prototype of the map and creates no
  property; every other key writes an own property.
\<close>

definition assign :: "TagsInfoMap \<Rightarrow> string \<Rightarrow> TagInfo \<Rightarrow> TagsInfoMap" where
  "assign tagsMap k tag =
     (if k = ''__proto__'' then tagsMap\<lparr>prototype := Some tag\<rparr>
      else tagsMap\<lparr>entries := dict_set (entries tagsMap) k tag\<rparr>)"

text \<open>
  \<open>TypeError\<close> is JavaScript's, raised on reading a property of \<^verbatim>\<open>undefined\<close> or
  \<^verbatim>\<open>null\<close>, and on calling what is not a function.
\<close>

datatype error = TypeError

text \<open>\<^verbatim>\<open>for (const x of xs) body\<close>, over a state, stopping at an exception.\<close>

fun for_each :: "('a \<Rightarrow> 's \<Rightarrow> error + 's) \<Rightarrow> 'a list \<Rightarrow> 's \<Rightarrow> error + 's" where
  "for_each body [] s = Inr s"
| "for_each body (x # xs) s =
     (case body x s of Inl e \<Rightarrow> Inl e | Inr s' \<Rightarrow> for_each body xs s')"

section \<open>The tag collector: \<^verbatim>\<open>getTagsWithOperations\<close>\<close>

text \<open>
  Modelled from the spec: \<^verbatim>\<open>isOperationName\<close> of \<^verbatim>\<open>../utils\<close> (not part of the
  sources), a case-sensitive match against the fixed set get, put, post, delete,
  options, head, patch, trace.
\<close>

definition operationNames :: "string list" where
  "operationNames =
     [''get'', ''put'', ''post'', ''delete'', ''options'', ''head'', ''patch'', ''trace'']"

definition isOperationName :: "string \<Rightarrow> bool" where
  "isOperationName key = (key \<in> set operationNames)"

text \<open>Line 201: \<^verbatim>\<open>{ ...tag, operations: [] }\<close>.\<close>

definition seedTag :: "OpenAPITag \<Rightarrow> TagInfo" where
  "seedTag tag =
     \<lparr>name = name tag, description = description tag, x_traitTag = x_traitTag tag,
      operations = [], used = None\<rparr>"

text \<open>Lines 200 to 202: \<^verbatim>\<open>tags[tag.name] = ...\<close> for each declared tag; nothing raises.\<close>

fun seedTags :: "OpenAPITag list \<Rightarrow> TagsInfoMap \<Rightarrow> TagsInfoMap" where
  "seedTags [] tags0 = tags0"
| "seedTags (tag # declared) tags0 = seedTags declared (assign tags0 (name tag) (seedTag tag))"

text \<open>Lines 220 to 223: \<^verbatim>\<open>{ name: tagName, operations: [] }\<close>.\<close>

definition newTag :: "string \<Rightarrow> TagInfo" where
  "newTag tagName =
     \<lparr>name = tagName, description = None, x_traitTag = None, operations = [], used = None\<rparr>"

text \<open>Line 226: \<^verbatim>\<open>tag['x-traitTag']\<close> is truthy.\<close>

definition isTrait :: "TagInfo \<Rightarrow> bool" where
  "isTrait tag = (x_traitTag tag = Some True)"

text \<open>
  Lines 218 to 234, the body of the loop over \<^verbatim>\<open>operationTags\<close>. A value that is no tag
  is not \<^verbatim>\<open>undefined\<close>, so no tag is created for the name; it has no truthy
  \<^verbatim>\<open>x-traitTag\<close> and no array under \<^verbatim>\<open>operations\<close>, so \<^verbatim>\<open>tag.operations.push\<close> raises. A
  name that reads \<^verbatim>\<open>undefined\<close> is not \<^verbatim>\<open>__proto__\<close>, and line 224 writes an own
  property. The push changes the tag where it is: in its entry, or as the prototype
  of the map.
\<close>

definition addToTag :: "ExtendedOpenAPIOperation \<Rightarrow> string \<Rightarrow> TagsInfoMap \<Rightarrow> error + TagsInfoMap" where
  "addToTag operation tagName tags0 =
     (case dict_get tags0 tagName of
        Inherited \<Rightarrow> Inl TypeError
      | InheritedFalsy \<Rightarrow> Inl TypeError
      | Undefined \<Rightarrow>
          Inr (tags0\<lparr>entries :=
                 dict_set (dict_set (entries tags0) tagName (newTag tagName)) tagName
                   ((newTag tagName)\<lparr>operations := [operation]\<rparr>)\<rparr>)
      | Own tag \<Rightarrow>
          if isTrait tag then Inr tags0
          else Inr (tags0\<lparr>entries :=
                      dict_set (entries tags0) tagName
                        (tag\<lparr>operations := operations tag @ [operation]\<rparr>)\<rparr>)
      | Prototype tag \<Rightarrow>
          if isTrait tag then Inr tags0
          else Inr (tags0\<lparr>prototype := Some (tag\<lparr>operations := operations tag @ [operation]\<rparr>)\<rparr>))"

text \<open>Lines 210 to 215.\<close>

definition operationTags :: "OpenAPIOperation \<Rightarrow> string list" where
  "operationTags operationInfo =
     (case tags operationInfo of
        None \<Rightarrow> ['''']
      | Some ts \<Rightarrow> if ts = [] then [''''] else ts)"

text \<open>Lines 229 to 234: the record pushed to \<^verbatim>\<open>tag.operations\<close>.\<close>

definition extendOperation ::
  "string \<Rightarrow> OpenAPIPath \<Rightarrow> string \<Rightarrow> OpenAPIOperation \<Rightarrow> ExtendedOpenAPIOperation" where
  "extendOperation pathName' path operationName operationInfo =
     \<lparr>tags = tags operationInfo, operationId = operationId operationInfo,
      pathName = pathName', httpVerb = operationName,
      pathParameters = (case parameters path of None \<Rightarrow> [] | Some ps \<Rightarrow> ps)\<rparr>"

text \<open>Line 200: \<^verbatim>\<open>spec.tags || []\<close>.\<close>

definition declaredTags :: "OpenAPISpec \<Rightarrow> OpenAPITag list" where
  "declaredTags spec = (case spec_tags spec of None \<Rightarrow> [] | Some ts \<Rightarrow> ts)"

text \<open>
  Lines 198 to 240. The keys of an object are distinct, so the loops run over the
  entries: \<^verbatim>\<open>paths[pathName]\<close> and \<^verbatim>\<open>path[operationName]\<close> are the values paired with
  the keys.
\<close>

definition getTagsWithOperations :: "OpenAPISpec \<Rightarrow> error + TagsInfoMap" where
  "getTagsWithOperations spec =
     for_each
       (\<lambda>(pathName', path).
          for_each
            (\<lambda>(operationName, operationInfo).
               for_each
                 (addToTag (extendOperation pathName' path operationName operationInfo))
                 (operationTags operationInfo))
            (filter (\<lambda>(key, _). isOperationName key) (members path)))
       (paths spec) (seedTags (declaredTags spec) emptyTags)"

section \<open>The content tree\<close>

text \<open>
  Modelled from the spec: \<^verbatim>\<open>GroupModel\<close> and \<^verbatim>\<open>OperationModel\<close> of \<^verbatim>\<open>./models\<close>
  (not part of the sources). A Group has a kind, the name of the heading, group
  definition or tag it was built from, a non-owning reference to its parent, a depth
  and its ordered children; an Operation carries its operation record, the reference
  to its parent and a depth. The reference to a parent is the parent's kind and name.
\<close>

datatype GroupType = Section | Group | Tag

type_synonym ParentRef = "(GroupType \<times> string) option"

datatype ContentItemModel =
    GroupModel GroupType string ParentRef nat "ContentItemModel list"
  | OperationModel ExtendedOpenAPIOperation ParentRef nat

text \<open>
  Modelled from the spec: a heading as the Heading Extractor
  (\<^verbatim>\<open>MarkdownRenderer.extractHeadings\<close>, not part of the sources) returns it, with its
  id, its title and its sub-headings (none when \<^verbatim>\<open>items\<close> is absent). The extractor
  itself is a parameter \<open>extractHeadings\<close> of the builder, in the place of the
  \<^verbatim>\<open>options\<close> the renderer is made from.
\<close>

datatype MarkdownHeading = MarkdownHeading string string "MarkdownHeading list"

definition GROUP_DEPTH :: nat where
  "GROUP_DEPTH = 0"

text \<open>
  Lines 68 to 84, \<^verbatim>\<open>items.map\<close> as a recursion over the headings. Registering the
  security-scheme prefix (lines 75 to 82) writes to a variable outside the returned
  tree and is left out.
\<close>

fun mapHeadingsDeep :: "ParentRef \<Rightarrow> MarkdownHeading list \<Rightarrow> nat \<Rightarrow> ContentItemModel list" where
  "mapHeadingsDeep parent [] depth = []"
| "mapHeadingsDeep parent (MarkdownHeading hid title subitems # items) depth =
     GroupModel Section title parent depth
       (mapHeadingsDeep (Some (Section, title)) subitems (depth + 1))
     # mapHeadingsDeep parent items depth"

text \<open>Lines 60 to 87.\<close>

definition addMarkdownItems ::
  "(string \<Rightarrow> MarkdownHeading list) \<Rightarrow> string \<Rightarrow> ParentRef \<Rightarrow> ContentItemModel list" where
  "addMarkdownItems extractHeadings description' grandparent =
     mapHeadingsDeep grandparent (extractHeadings description') 1"

text \<open>\<^verbatim>\<open>description || ''\<close>.\<close>

definition orEmpty :: "string option \<Rightarrow> string" where
  "orEmpty s = (case s of None \<Rightarrow> [] | Some t \<Rightarrow> t)"

section \<open>The menu builder\<close>

text \<open>Lines 175 to 193.\<close>

definition getOperationsItems :: "ParentRef \<Rightarrow> TagInfo \<Rightarrow> nat \<Rightarrow> ContentItemModel list" where
  "getOperationsItems parent tag depth =
     (if length (operations tag) = 0 then []
      else map (\<lambda>operationInfo. OperationModel operationInfo parent depth) (operations tag))"

text \<open>Line 134, the text of the warning.\<close>

definition nonExistingTag :: "string \<Rightarrow> string \<Rightarrow> string" where
  "nonExistingTag tagName groupName =
     ''Non-existing tag '' @ [CHR 0x22] @ tagName @ [CHR 0x22]
     @ '' is added to the group '' @ [CHR 0x22] @ groupName @ [CHR 0x22]"

text \<open>
  Lines 132 to 139, the callback of \<^verbatim>\<open>tagNames.map\<close>, run over the tag names in order.
  The state is the tag map and the warnings written to the console. \<open>Undefined\<close> in
  the result stands for \<^verbatim>\<open>null\<close>, which every name that reads a falsy value gives. A
  tag is marked where it is: in its entry, or as the prototype of the map. A truthy
  value that is no tag passes the test of line 133 and is returned (where line 137
  raises on it, the loop of lines 142 to 165 would raise on it as well, and nothing
  is returned either way). \<^verbatim>\<open>group!.name\<close> raises when there is no group.
\<close>

fun markTags ::
  "TagGroup option \<Rightarrow> string list \<Rightarrow> TagsInfoMap \<times> string list \<Rightarrow>
     error + (TagInfo lookup list \<times> TagsInfoMap \<times> string list)" where
  "markTags group' [] st = Inr ([], st)"
| "markTags group' (tagName # tagNames) (tagsMap, console) =
     (case dict_get tagsMap tagName of
        Undefined \<Rightarrow>
          (case group' of
             None \<Rightarrow> Inl TypeError
           | Some g \<Rightarrow>
               (case markTags group' tagNames
                       (tagsMap, console @ [nonExistingTag tagName (group_name g)])
                of Inl e \<Rightarrow> Inl e
                 | Inr (tags', st') \<Rightarrow> Inr (Undefined # tags', st')))
      | InheritedFalsy \<Rightarrow>
          (case group' of
             None \<Rightarrow> Inl TypeError
           | Some g \<Rightarrow>
               (case markTags group' tagNames
                       (tagsMap, console @ [nonExistingTag tagName (group_name g)])
                of Inl e \<Rightarrow> Inl e
                 | Inr (tags', st') \<Rightarrow> Inr (Undefined # tags', st')))
      | Inherited \<Rightarrow>
          (case markTags group' tagNames (tagsMap, console) of
             Inl e \<Rightarrow> Inl e
           | Inr (tags', st') \<Rightarrow> Inr (Inherited # tags', st'))
      | Own tag \<Rightarrow>
          (case markTags group' tagNames
                  (tagsMap\<lparr>entries :=
                     dict_set (entries tagsMap) tagName (tag\<lparr>used := Some True\<rparr>)\<rparr>, console)
           of Inl e \<Rightarrow> Inl e
            | Inr (tags', st') \<Rightarrow> Inr (Own (tag\<lparr>used := Some True\<rparr>) # tags', st'))
      | Prototype tag \<Rightarrow>
          (case markTags group' tagNames
                  (tagsMap\<lparr>prototype := Some (tag\<lparr>used := Some True\<rparr>)\<rparr>, console)
           of Inl e \<Rightarrow> Inl e
            | Inr (tags', st') \<Rightarrow> Inr (Prototype (tag\<lparr>used := Some True\<rparr>) # tags', st')))"

text \<open>
  Lines 146, 147 and 159 to 162: the Group of a tag, at depth \<^verbatim>\<open>GROUP_DEPTH + 1\<close>, with
  the sections of its description and its operations one level deeper. The items
  built under it refer to it as their parent.
\<close>

definition tagGroup ::
  "(string \<Rightarrow> MarkdownHeading list) \<Rightarrow> ParentRef \<Rightarrow> TagInfo \<Rightarrow> ContentItemModel" where
  "tagGroup extractHeadings parent tag =
     GroupModel Tag (name tag) parent (GROUP_DEPTH + 1)
       (addMarkdownItems extractHeadings (orEmpty (description tag)) (Some (Tag, name tag))
        @ getOperationsItems (Some (Tag, name tag)) tag (GROUP_DEPTH + 1 + 1))"

text \<open>
  Lines 146 to 164, the body of the loop over \<^verbatim>\<open>tags\<close> for a tag of the map: what the
  iteration appends to \<^verbatim>\<open>res\<close>. For the tag with the empty name the Group of line 146
  is not appended: the sections of its description, which refer to it, and its
  operations, which have no parent, are.
\<close>

definition tagItems ::
  "(string \<Rightarrow> MarkdownHeading list) \<Rightarrow> ParentRef \<Rightarrow> TagInfo \<Rightarrow> ContentItemModel list" where
  "tagItems extractHeadings parent tag =
     (if name tag = [] then
        addMarkdownItems extractHeadings (orEmpty (description tag)) (Some (Tag, name tag))
        @ getOperationsItems None tag (GROUP_DEPTH + 1 + 1)
      else [tagGroup extractHeadings parent tag])"

text \<open>
  Lines 141 to 166. \<^verbatim>\<open>null\<close> is skipped. A truthy value that is no tag has no
  \<^verbatim>\<open>operations\<close>: the iteration raises, at the latest on \<^verbatim>\<open>tag.operations.length\<close>
  (line 182).
\<close>

fun tagsLoop ::
  "(string \<Rightarrow> MarkdownHeading list) \<Rightarrow> ParentRef \<Rightarrow> TagInfo lookup list \<Rightarrow>
     error + ContentItemModel list" where
  "tagsLoop extractHeadings parent [] = Inr []"
| "tagsLoop extractHeadings parent (Undefined # tags') = tagsLoop extractHeadings parent tags'"
| "tagsLoop extractHeadings parent (InheritedFalsy # tags') =
     tagsLoop extractHeadings parent tags'"
| "tagsLoop extractHeadings parent (Inherited # tags') = Inl TypeError"
| "tagsLoop extractHeadings parent (Own tag # tags') =
     (case tagsLoop extractHeadings parent tags' of
        Inl e \<Rightarrow> Inl e
      | Inr res \<Rightarrow> Inr (tagItems extractHeadings parent tag @ res))"
| "tagsLoop extractHeadings parent (Prototype tag # tags') =
     (case tagsLoop extractHeadings parent tags' of
        Inl e \<Rightarrow> Inl e
      | Inr res \<Rightarrow> Inr (tagItems extractHeadings parent tag @ res))"

text \<open>Lines 117 to 167.\<close>

definition getTagsItems ::
  "(string \<Rightarrow> MarkdownHeading list) \<Rightarrow> TagsInfoMap \<Rightarrow> ParentRef \<Rightarrow> TagGroup option \<Rightarrow>
     string list \<Rightarrow> error + (ContentItemModel list \<times> TagsInfoMap \<times> string list)" where
  "getTagsItems extractHeadings tagsMap parent group' console =
     (let tagNames = (case group' of None \<Rightarrow> object_keys tagsMap | Some g \<Rightarrow> group_tags g) in
      case markTags group' tagNames (tagsMap, console) of
        Inl e \<Rightarrow> Inl e
      | Inr (tags', st') \<Rightarrow>
          (case tagsLoop extractHeadings parent tags' of
             Inl e \<Rightarrow> Inl e
           | Inr res \<Rightarrow> Inr (res, st')))"

text \<open>Lines 93 to 109.\<close>

fun getTagGroupsItems ::
  "(string \<Rightarrow> MarkdownHeading list) \<Rightarrow> ParentRef \<Rightarrow> TagGroup list \<Rightarrow> TagsInfoMap \<Rightarrow>
     string list \<Rightarrow> error + (ContentItemModel list \<times> TagsInfoMap \<times> string list)" where
  "getTagGroupsItems extractHeadings parent [] tags' console = Inr ([], tags', console)"
| "getTagGroupsItems extractHeadings parent (g # groups) tags' console =
     (case getTagsItems extractHeadings tags' (Some (Group, group_name g)) (Some g) console of
        Inl e \<Rightarrow> Inl e
      | Inr (items, tags'', console') \<Rightarrow>
          (case getTagGroupsItems extractHeadings parent groups tags'' console' of
             Inl e \<Rightarrow> Inl e
           | Inr (res, st') \<Rightarrow>
               Inr (GroupModel Group (group_name g) parent GROUP_DEPTH items # res, st')))"

text \<open>
  Lines 37 to 54, with what the run leaves behind: the returned items, the tag map
  as the run marked it, and the warnings on the console.
\<close>

definition buildStructureRun ::
  "(string \<Rightarrow> MarkdownHeading list) \<Rightarrow> OpenAPISpec \<Rightarrow>
     error + (ContentItemModel list \<times> TagsInfoMap \<times> string list)" where
  "buildStructureRun extractHeadings spec =
     (case getTagsWithOperations spec of
        Inl e \<Rightarrow> Inl e
      | Inr tagsMap \<Rightarrow>
          (let items = addMarkdownItems extractHeadings (orEmpty (info_description spec)) None in
           case (case x_tagGroups spec of
                   None \<Rightarrow> getTagsItems extractHeadings tagsMap None None []
                 | Some groups \<Rightarrow>
                     if length groups > 0
                     then getTagGroupsItems extractHeadings None groups tagsMap []
                     else getTagsItems extractHeadings tagsMap None None [])
           of Inl e \<Rightarrow> Inl e
            | Inr (res, st') \<Rightarrow> Inr (items @ res, st')))"

definition buildStructure ::
  "(string \<Rightarrow> MarkdownHeading list) \<Rightarrow> OpenAPISpec \<Rightarrow> error + ContentItemModel list" where
  "buildStructure extractHeadings spec =
     (case buildStructureRun extractHeadings spec of
        Inl e \<Rightarrow> Inl e
      | Inr (items, st') \<Rightarrow> Inr items)"

section \<open>Reading a content tree\<close>

fun isOperation :: "ContentItemModel \<Rightarrow> bool" where
  "isOperation (OperationModel info parent depth) = True"
| "isOperation (GroupModel type title parent depth items) = False"

fun isGroupOf :: "GroupType \<Rightarrow> ContentItemModel \<Rightarrow> bool" where
  "isGroupOf t (GroupModel type title parent depth items) = (type = t)"
| "isGroupOf t (OperationModel info parent depth) = False"

fun depthOf :: "ContentItemModel \<Rightarrow> nat" where
  "depthOf (GroupModel type title parent depth items) = depth"
| "depthOf (OperationModel info parent depth) = depth"

fun itemsOf :: "ContentItemModel \<Rightarrow> ContentItemModel list" where
  "itemsOf (GroupModel type title parent depth items) = items"
| "itemsOf (OperationModel info parent depth) = []"

fun titleOf :: "ContentItemModel \<Rightarrow> string" where
  "titleOf (GroupModel type title parent depth items) = title"
| "titleOf (OperationModel info parent depth) = []"

text \<open>Every node of a tree, the root first.\<close>

fun nodes :: "ContentItemModel \<Rightarrow> ContentItemModel list" where
  "nodes (GroupModel type title parent depth items) =
     GroupModel type title parent depth items # concat (map nodes items)"
| "nodes (OperationModel info parent depth) = [OperationModel info parent depth]"

definition allNodes :: "ContentItemModel list \<Rightarrow> ContentItemModel list" where
  "allNodes items = concat (map nodes items)"


section \<open>What the collector files under a tag\<close>

text \<open>
  The operations of the path map that carry the tag \<open>n\<close>, each extended with its path,
  verb and path parameters: paths in the order of the path map, within a path item the
  operation names among its keys in the order of the keys, an operation once for every
  occurrence of \<open>n\<close> in its tag list.
\<close>

definition operationsUnder :: "string \<Rightarrow> OpenAPIPath Dict \<Rightarrow> ExtendedOpenAPIOperation list" where
  "operationsUnder n ps =
     concat (map (\<lambda>(pathName', path).
       concat (map (\<lambda>(operationName, operationInfo).
         concat (map (\<lambda>tagName.
           if tagName = n then [extendOperation pathName' path operationName operationInfo]
           else [])
           (operationTags operationInfo)))
         (filter (\<lambda>(key, _). isOperationName key) (members path))))
       ps)"

text \<open>The tag that a read of the map gives, when it gives a tag.\<close>

definition tagOf :: "TagInfo lookup \<Rightarrow> TagInfo option" where
  "tagOf entry = (case entry of Own tag \<Rightarrow> Some tag | Prototype tag \<Rightarrow> Some tag | _ \<Rightarrow> None)"

text \<open>
  The declaration of the tag \<open>n\<close> that counts: the last one of that name, which
  overwrites the earlier ones at line 201.
\<close>

definition declaredAs :: "string \<Rightarrow> OpenAPITag list \<Rightarrow> OpenAPITag option" where
  "declaredAs n declared = find (\<lambda>tag. name tag = n) (rev declared)"

text \<open>
  What the name \<open>n\<close> reads after the operations \<open>xs\<close> were filed under it, from what it
  read before: a tag first seen is created, a trait tag takes nothing.
\<close>

definition pushed ::
  "string \<Rightarrow> ExtendedOpenAPIOperation list \<Rightarrow> TagInfo lookup \<Rightarrow> TagInfo lookup" where
  "pushed n xs entry =
     (if xs = [] then entry
      else case entry of
             Undefined \<Rightarrow> Own ((newTag n)\<lparr>operations := xs\<rparr>)
           | Own tag \<Rightarrow>
               Own (if isTrait tag then tag else tag\<lparr>operations := operations tag @ xs\<rparr>)
           | Prototype tag \<Rightarrow>
               Prototype (if isTrait tag then tag else tag\<lparr>operations := operations tag @ xs\<rparr>)
           | Inherited \<Rightarrow> Inherited
           | InheritedFalsy \<Rightarrow> InheritedFalsy)"

text \<open>
  The order the specification states for the operations of a tag: paths in the order of
  the path map, and within a path the verbs in the fixed order get, put, post, delete,
  options, head, patch, trace.
\<close>

definition fixedVerbOrder :: "string \<Rightarrow> OpenAPIPath Dict \<Rightarrow> (string \<times> string) list" where
  "fixedVerbOrder n ps =
     concat (map (\<lambda>(pathName', path).
       concat (map (\<lambda>verb.
         case map_of (members path) verb of
           None \<Rightarrow> []
         | Some operationInfo \<Rightarrow> if n \<in> set (operationTags operationInfo) then [(pathName', verb)] else [])
         operationNames))
       ps)"

section \<open>What the builder makes of the tag map\<close>

text \<open>A section at depth \<open>d\<close> whose sub-sections, at every level, are one level deeper.\<close>

fun sectionsFrom :: "nat \<Rightarrow> ContentItemModel \<Rightarrow> bool" where
  "sectionsFrom d (GroupModel type title parent depth items) =
     (type = Section \<and> depth = d \<and> list_all (sectionsFrom (d + 1)) items)"
| "sectionsFrom d (OperationModel info parent depth) = False"

fun parentOf :: "ContentItemModel \<Rightarrow> ParentRef" where
  "parentOf (GroupModel type title parent depth items) = parent"
| "parentOf (OperationModel info parent depth) = parent"

text \<open>A Group of the kind \<^verbatim>\<open>tag\<close> with the title \<open>n\<close>.\<close>

definition isTagGroupOf :: "string \<Rightarrow> ContentItemModel \<Rightarrow> bool" where
  "isTagGroupOf n x = (isGroupOf Tag x \<and> titleOf x = n)"

text \<open>Line 137 on a tag.\<close>

definition mark :: "TagInfo \<Rightarrow> TagInfo" where
  "mark tag = tag\<lparr>used := Some True\<rparr>"

text \<open>
  The items that stand for the name \<open>tagName\<close> under the parent: those of the tag that
  the name reads in the map, none when it reads no tag.
\<close>

definition itemsAt ::
  "(string \<Rightarrow> MarkdownHeading list) \<Rightarrow> ParentRef \<Rightarrow> TagsInfoMap \<Rightarrow> string \<Rightarrow>
     ContentItemModel list" where
  "itemsAt extractHeadings parent tagsMap tagName =
     (case tagOf (dict_get tagsMap tagName) of
        Some tag \<Rightarrow> tagItems extractHeadings parent tag
      | None \<Rightarrow> [])"

text \<open>
  The children of the Group of a group definition: the items of the tags it names that
  the tag map has, in the order of the definition.
\<close>

definition groupItems ::
  "(string \<Rightarrow> MarkdownHeading list) \<Rightarrow> TagGroup \<Rightarrow> TagsInfoMap \<Rightarrow> ContentItemModel list" where
  "groupItems extractHeadings g tagsMap =
     concat (map (itemsAt extractHeadings (Some (Group, group_name g)) tagsMap) (group_tags g))"

text \<open>The items of every entry of the map, in the order of the map, with no parent.\<close>

definition allTagsItems ::
  "(string \<Rightarrow> MarkdownHeading list) \<Rightarrow> TagsInfoMap \<Rightarrow> ContentItemModel list" where
  "allTagsItems extractHeadings tagsMap =
     concat (map (\<lambda>(tagName, tag). tagItems extractHeadings None tag) (entries tagsMap))"

text \<open>
  What the name \<open>k\<close> may read in a tag map after tags were marked, from what it read
  before: the same, or the same tag with the flag \<^verbatim>\<open>used\<close> set to true. When the tag
  that is the prototype of the map is marked, the name \<^verbatim>\<open>used\<close> reads its flag.
\<close>

definition markedFrom :: "string \<Rightarrow> TagInfo lookup \<Rightarrow> TagInfo lookup \<Rightarrow> bool" where
  "markedFrom k before after =
     (case before of
        Own tag \<Rightarrow> after = Own tag \<or> after = Own (mark tag)
      | Prototype tag \<Rightarrow> after = Prototype tag \<or> after = Prototype (mark tag)
      | Inherited \<Rightarrow> after = Inherited
      | Undefined \<Rightarrow> after = Undefined \<or> (k = ''used'' \<and> after = Inherited)
      | InheritedFalsy \<Rightarrow> after = InheritedFalsy \<or> (k = ''used'' \<and> after = Inherited))"

text \<open>A tag map that differs from \<open>m0\<close> in flags \<^verbatim>\<open>used\<close> set to true at most.\<close>

definition marksOnly :: "TagsInfoMap \<Rightarrow> TagsInfoMap \<Rightarrow> bool" where
  "marksOnly m0 m = (\<forall>k. markedFrom k (dict_get m0 k) (dict_get m k))"

text \<open>A read of the map that line 133 takes for a tag that does not exist.\<close>

definition falsy :: "TagInfo lookup \<Rightarrow> bool" where
  "falsy entry = (entry = Undefined \<or> entry = InheritedFalsy)"

section \<open>Example descriptions\<close>

text \<open>Two heading extractors: one finds no heading, one finds the heading of \<^verbatim>\<open># Intro\<close>.\<close>

definition noHeadings :: "string \<Rightarrow> MarkdownHeading list" where
  "noHeadings text = []"

definition introHeadings :: "string \<Rightarrow> MarkdownHeading list" where
  "introHeadings text =
     (if text = ''# Intro'' then [MarkdownHeading ''section/intro'' ''Intro'' []] else [])"

definition tagged :: "string list \<Rightarrow> string \<Rightarrow> OpenAPIOperation" where
  "tagged ts oid = \<lparr>tags = Some ts, operationId = Some oid\<rparr>"

definition untagged :: "string \<Rightarrow> OpenAPIOperation" where
  "untagged oid = \<lparr>tags = None, operationId = Some oid\<rparr>"

text \<open>
  \<^verbatim>\<open>{ tags: [{name: 'pets'}, {name: 'paging', 'x-traitTag': true}, {name: 'store'}],
    paths: { '/pets': { parameters: ['limit'],
                        post: {tags: ['pets']}, summary: ..., get: {tags: ['pets', 'paging']} },
             '/health': { get: {} } } }\<close>
\<close>

definition petsPath :: OpenAPIPath where
  "petsPath =
     \<lparr>members = [(''post'', tagged [''pets''] ''addPet''),
                 (''summary'', \<lparr>tags = None, operationId = None\<rparr>),
                 (''get'', tagged [''pets'', ''paging''] ''listPets'')],
      parameters = Some [''limit'']\<rparr>"

definition healthPath :: OpenAPIPath where
  "healthPath = \<lparr>members = [(''get'', untagged ''health'')], parameters = None\<rparr>"

definition storeDeclared :: OpenAPITag where
  "storeDeclared = \<lparr>name = ''store'', description = None, x_traitTag = None\<rparr>"

definition petstore :: OpenAPISpec where
  "petstore =
     \<lparr>info_description = None,
      spec_tags = Some [\<lparr>name = ''pets'', description = None, x_traitTag = None\<rparr>,
                        \<lparr>name = ''paging'', description = None, x_traitTag = Some True\<rparr>,
                        storeDeclared],
      paths = [(''/pets'', petsPath), (''/health'', healthPath)],
      x_tagGroups = None\<rparr>"

definition addPet :: ExtendedOpenAPIOperation where
  "addPet = extendOperation ''/pets'' petsPath ''post'' (tagged [''pets''] ''addPet'')"

definition listPets :: ExtendedOpenAPIOperation where
  "listPets = extendOperation ''/pets'' petsPath ''get'' (tagged [''pets'', ''paging''] ''listPets'')"

definition health :: ExtendedOpenAPIOperation where
  "health = extendOperation ''/health'' healthPath ''get'' (untagged ''health'')"

text \<open>The tag map the collector builds for \<open>petstore\<close>.\<close>

definition petsTag :: TagInfo where
  "petsTag =
     \<lparr>name = ''pets'', description = None, x_traitTag = None,
      operations = [addPet, listPets], used = None\<rparr>"

definition pagingTag :: TagInfo where
  "pagingTag =
     \<lparr>name = ''paging'', description = None, x_traitTag = Some True,
      operations = [], used = None\<rparr>"

definition storeTag :: TagInfo where
  "storeTag =
     \<lparr>name = ''store'', description = None, x_traitTag = None, operations = [], used = None\<rparr>"

definition healthTag :: TagInfo where
  "healthTag =
     \<lparr>name = [], description = None, x_traitTag = None, operations = [health], used = None\<rparr>"

definition petstoreTags :: TagsInfoMap where
  "petstoreTags =
     \<lparr>entries = [(''pets'', petsTag), (''paging'', pagingTag), (''store'', storeTag),
                 ([], healthTag)],
      prototype = None\<rparr>"

text \<open>What \<^verbatim>\<open>buildStructure\<close> returns for \<open>petstore\<close>, and the tag map it leaves.\<close>

definition petsAtTop :: ContentItemModel where
  "petsAtTop =
     GroupModel Tag ''pets'' None 1
       [OperationModel addPet (Some (Tag, ''pets'')) 2,
        OperationModel listPets (Some (Tag, ''pets'')) 2]"

definition petstoreItems :: "ContentItemModel list" where
  "petstoreItems =
     [petsAtTop,
      GroupModel Tag ''paging'' None 1 [],
      GroupModel Tag ''store'' None 1 [],
      OperationModel health None 2]"

definition petstoreMarked :: TagsInfoMap where
  "petstoreMarked =
     \<lparr>entries = [(''pets'', mark petsTag), (''paging'', mark pagingTag),
                 (''store'', mark storeTag), ([], mark healthTag)],
      prototype = None\<rparr>"

text \<open>
  \<open>petstore\<close> with \<^verbatim>\<open>x-tagGroups: [{name: 'General', tags: ['', 'owners', 'pets']}]\<close>: the
  group names the anonymous tag, a tag that does not exist, and \<^verbatim>\<open>pets\<close>.
\<close>

definition grouped :: OpenAPISpec where
  "grouped =
     petstore\<lparr>x_tagGroups :=
       Some [\<lparr>group_name = ''General'', group_tags = [[], ''owners'', ''pets'']\<rparr>]\<rparr>"

definition petsInGeneral :: ContentItemModel where
  "petsInGeneral =
     GroupModel Tag ''pets'' (Some (Group, ''General'')) 1
       [OperationModel addPet (Some (Tag, ''pets'')) 2,
        OperationModel listPets (Some (Tag, ''pets'')) 2]"

definition general :: ContentItemModel where
  "general = GroupModel Group ''General'' None 0 [OperationModel health None 2, petsInGeneral]"

definition groupedItems :: "ContentItemModel list" where
  "groupedItems = [general]"

definition groupedMarked :: TagsInfoMap where
  "groupedMarked =
     \<lparr>entries = [(''pets'', mark petsTag), (''paging'', pagingTag), (''store'', storeTag),
                 ([], mark healthTag)],
      prototype = None\<rparr>"

text \<open>
  \<open>petstore\<close> with \<^verbatim>\<open>x-tagGroups: [{name: 'General', tags: ['constructor', 'pets']}]\<close>: no
  tag is called \<^verbatim>\<open>constructor\<close>.
\<close>

definition groupedConstructor :: OpenAPISpec where
  "groupedConstructor =
     petstore\<lparr>x_tagGroups :=
       Some [\<lparr>group_name = ''General'', group_tags = [''constructor'', ''pets'']\<rparr>]\<rparr>"

text \<open>
  \<open>petstore\<close> with \<^verbatim>\<open>x-tagGroups: [{name: 'Shop', tags: ['store', 'pets']}]\<close>: the group
  names the tag \<^verbatim>\<open>store\<close>, which no operation carries.
\<close>

definition shop :: TagGroup where
  "shop = \<lparr>group_name = ''Shop'', group_tags = [''store'', ''pets'']\<rparr>"

definition shopped :: OpenAPISpec where
  "shopped = petstore\<lparr>x_tagGroups := Some [shop]\<rparr>"

definition shoppedItems :: "ContentItemModel list" where
  "shoppedItems =
     [GroupModel Group ''Shop'' None 0
        [GroupModel Tag ''store'' (Some (Group, ''Shop'')) 1 [],
         GroupModel Tag ''pets'' (Some (Group, ''Shop'')) 1
           [OperationModel addPet (Some (Tag, ''pets'')) 2,
            OperationModel listPets (Some (Tag, ''pets'')) 2]]]"

text \<open>
  \<^verbatim>\<open>{ tags: [{name: '', description: '# Intro'}], paths: { '/health': { get: {} } } }\<close>: the
  anonymous tag is declared, with a description.
\<close>

definition anonymousIntro :: OpenAPISpec where
  "anonymousIntro =
     \<lparr>info_description = None,
      spec_tags = Some [\<lparr>name = [], description = Some ''# Intro'', x_traitTag = None\<rparr>],
      paths = [(''/health'', healthPath)],
      x_tagGroups = None\<rparr>"

definition anonymousTag :: TagInfo where
  "anonymousTag =
     \<lparr>name = [], description = Some ''# Intro'', x_traitTag = None,
      operations = [health], used = Some True\<rparr>"

definition anonymousIntroItems :: "ContentItemModel list" where
  "anonymousIntroItems =
     [GroupModel Section ''Intro'' (Some (Tag, [])) 1 [], OperationModel health None 2]"

text \<open>
  A description that declares a tag under the name \<^verbatim>\<open>__proto__\<close>:
  \<^verbatim>\<open>{ tags: [{name: '__proto__'}, {name: 'pets'}],
    paths: { '/pets': { get: {tags: ['pets', '__proto__']}, put: {tags: ['__proto__']} } } }\<close>.
  Line 201 makes the tag the prototype of the map; the map has the one entry \<^verbatim>\<open>pets\<close>.
\<close>

definition protoDeclared :: OpenAPITag where
  "protoDeclared = \<lparr>name = ''__proto__'', description = None, x_traitTag = None\<rparr>"

definition protoPath :: OpenAPIPath where
  "protoPath =
     \<lparr>members = [(''get'', tagged [''pets'', ''__proto__''] ''listPets''),
                 (''put'', tagged [''__proto__''] ''putPet'')],
      parameters = None\<rparr>"

definition prototyped :: OpenAPISpec where
  "prototyped =
     \<lparr>info_description = None,
      spec_tags = Some [protoDeclared,
                        \<lparr>name = ''pets'', description = None, x_traitTag = None\<rparr>],
      paths = [(''/pets'', protoPath)],
      x_tagGroups = None\<rparr>"

definition protoList :: ExtendedOpenAPIOperation where
  "protoList =
     extendOperation ''/pets'' protoPath ''get'' (tagged [''pets'', ''__proto__''] ''listPets'')"

definition protoPut :: ExtendedOpenAPIOperation where
  "protoPut = extendOperation ''/pets'' protoPath ''put'' (tagged [''__proto__''] ''putPet'')"

definition protoTag :: TagInfo where
  "protoTag =
     \<lparr>name = ''__proto__'', description = None, x_traitTag = None,
      operations = [protoList, protoPut], used = None\<rparr>"

definition protoPets :: TagInfo where
  "protoPets =
     \<lparr>name = ''pets'', description = None, x_traitTag = None,
      operations = [protoList], used = None\<rparr>"

definition prototypedTags :: TagsInfoMap where
  "prototypedTags = \<lparr>entries = [(''pets'', protoPets)], prototype = Some protoTag\<rparr>"

definition prototypedItems :: "ContentItemModel list" where
  "prototypedItems =
     [GroupModel Tag ''pets'' None 1 [OperationModel protoList (Some (Tag, ''pets'')) 2]]"

definition prototypedMarked :: TagsInfoMap where
  "prototypedMarked = \<lparr>entries = [(''pets'', mark protoPets)], prototype = Some protoTag\<rparr>"

text \<open>
  \<open>prototyped\<close> with \<^verbatim>\<open>x-tagGroups: [{name: 'All', tags: ['__proto__', 'pets']}]\<close>: the
  group reads the tag that is the prototype of the map.
\<close>

definition groupedPrototype :: OpenAPISpec where
  "groupedPrototype =
     prototyped\<lparr>x_tagGroups :=
       Some [\<lparr>group_name = ''All'', group_tags = [''__proto__'', ''pets'']\<rparr>]\<rparr>"

definition groupedPrototypeItems :: "ContentItemModel list" where
  "groupedPrototypeItems =
     [GroupModel Group ''All'' None 0
        [GroupModel Tag ''__proto__'' (Some (Group, ''All'')) 1
           [OperationModel protoList (Some (Tag, ''__proto__'')) 2,
            OperationModel protoPut (Some (Tag, ''__proto__'')) 2],
         GroupModel Tag ''pets'' (Some (Group, ''All'')) 1
           [OperationModel protoList (Some (Tag, ''pets'')) 2]]]"

text \<open>
  Tags whose names are array indices: \<^verbatim>\<open>{ tags: [{name: 'b'}, {name: '10'}, {name: '9'}],
  paths: {} }\<close>. \<^verbatim>\<open>Object.keys\<close> lists \<^verbatim>\<open>9\<close>, \<^verbatim>\<open>10\<close>, \<^verbatim>\<open>b\<close>.
\<close>

definition numbered :: OpenAPISpec where
  "numbered =
     \<lparr>info_description = None,
      spec_tags = Some [\<lparr>name = ''b'', description = None, x_traitTag = None\<rparr>,
                        \<lparr>name = ''10'', description = None, x_traitTag = None\<rparr>,
                        \<lparr>name = ''9'', description = None, x_traitTag = None\<rparr>],
      paths = [],
      x_tagGroups = None\<rparr>"

text \<open>
  The description with one more path, whose one operation carries the tag \<open>n\<close>.
\<close>

definition carrying :: "string \<Rightarrow> OpenAPISpec \<Rightarrow> OpenAPISpec" where
  "carrying n spec =
     spec\<lparr>paths := paths spec
       @ [(''/extra'', \<lparr>members = [(''get'', tagged [n] ''extra'')], parameters = None\<rparr>)]\<rparr>"

text \<open>The description with the one tag group \<^verbatim>\<open>{name: 'All', tags: ns}\<close>.\<close>

definition groupedAs :: "string list \<Rightarrow> OpenAPISpec \<Rightarrow> OpenAPISpec" where
  "groupedAs ns spec = spec\<lparr>x_tagGroups := Some [\<lparr>group_name = ''All'', group_tags = ns\<rparr>]\<rparr>"


section \<open>Properties of the dictionary\<close>

lemma for_each_append:
  "for_each body (xs @ ys) s =
     (case for_each body xs s of Inl e \<Rightarrow> Inl e | Inr s' \<Rightarrow> for_each body ys s')"
  by (induction xs arbitrary: s) (auto split: sum.splits)

lemma map_of_replace:
  "map_of (map (\<lambda>(k', v'). if k' = k then (k', v) else (k', v')) d) k' =
     (if k' = k then map_option (\<lambda>_. v) (map_of d k) else map_of d k')"
  by (induction d) auto

lemma map_of_insertIndex:
  "map_of (insertIndex k v d) k' = (if k' = k then Some v else map_of d k')"
  by (induction d) auto

lemma map_of_dict_set:
  "map_of (dict_set d k v) k' = (if k' = k then Some v else map_of d k')"
proof (cases "k \<in> set (map fst d)")
  case True
  then obtain w where "map_of d k = Some w"
    by (cases "map_of d k") (auto simp: map_of_eq_None_iff)
  with True show ?thesis
    by (simp add: dict_set_def map_of_replace)
next
  case False
  then have "map_of d k = None"
    by (simp add: map_of_eq_None_iff)
  with False show ?thesis
    by (auto simp: dict_set_def map_of_insertIndex map_add_def split: option.splits)
qed

lemma set_insertIndex: "set (insertIndex k v d) = insert (k, v) (set d)"
  by (induction d) (auto split: if_splits)

lemma keys_insertIndex: "fst ` set (insertIndex k v d) = insert k (fst ` set d)"
  by (simp add: set_insertIndex)

lemma distinct_insertIndex:
  "k \<notin> set (map fst d) \<Longrightarrow> distinct (map fst d) \<Longrightarrow> distinct (map fst (insertIndex k v d))"
proof (induction d)
  case Nil
  then show ?case by simp
next
  case (Cons p d)
  obtain k' v' where p: "p = (k', v')" by (cases p)
  from Cons.prems have d: "k \<notin> set (map fst d)" "distinct (map fst d)" "k' \<noteq> k"
    "k' \<notin> set (map fst d)"
    by (auto simp: p)
  have "k' \<notin> set (map fst (insertIndex k v d))"
    using d by (simp add: keys_insertIndex)
  with Cons.IH [OF d(1,2)] d show ?case
    by (auto simp: p)
qed

lemma keys_replace:
  "map fst (map (\<lambda>(k', v'). if k' = k then (k', v) else (k', v')) d) = map fst d"
  by (induction d) auto

lemma keys_dict_set_list:
  "map fst (dict_set d k v) =
     (if k \<in> set (map fst d) then map fst d
      else if isArrayIndex k then map fst (insertIndex k v d)
      else map fst d @ [k])"
  unfolding dict_set_def using keys_replace [of k v d] by (simp del: map_map)

lemma distinct_dict_set:
  "distinct (map fst d) \<Longrightarrow> distinct (map fst (dict_set d k v))"
  by (simp add: keys_dict_set_list distinct_insertIndex del: set_map)

lemma keys_dict_set: "fst ` set (dict_set d k v) = insert k (fst ` set d)"
  using arg_cong [OF keys_dict_set_list [of d k v], of set]
  by (auto simp: keys_insertIndex)

lemma dict_get_Own: "dict_get m k = Own tag \<longleftrightarrow> map_of (entries m) k = Some tag"
  by (auto simp: dict_get_def split: option.splits)

lemma dict_get_Own_mem: "dict_get m k = Own tag \<Longrightarrow> (k, tag) \<in> set (entries m)"
  by (simp add: dict_get_Own map_of_SomeD)

lemma dict_get_Own_key: "dict_get m k = Own tag \<Longrightarrow> k \<in> set (object_keys m)"
  using dict_get_Own_mem [of m k tag] by (force simp: object_keys_def)

lemma dict_get_distinct:
  "distinct (object_keys m) \<Longrightarrow> (k, tag) \<in> set (entries m) \<Longrightarrow> dict_get m k = Own tag"
  by (simp add: dict_get_Own object_keys_def)

lemma dict_get_Prototype:
  assumes "dict_get m k = Prototype p"
  shows "k = ''__proto__''" and "prototype m = Some p" and "map_of (entries m) k = None"
  using assms by (auto simp: dict_get_def split: option.splits if_splits)

lemma dict_get_no_key:
  "k \<notin> set (object_keys m) \<Longrightarrow> map_of (entries m) k = None"
  by (simp add: object_keys_def map_of_eq_None_iff)

lemma dict_get_empty_tags:
  "dict_get emptyTags k = (if k \<in> set objectPrototypeKeys then Inherited else Undefined)"
  by (simp add: dict_get_def emptyTags_def)

text \<open>Writing an entry changes what its name reads, and nothing else.\<close>

lemma dict_get_entries:
  "dict_get (m\<lparr>entries := dict_set d k v\<rparr>) k' =
     (if k' = k then Own v else dict_get (m\<lparr>entries := d\<rparr>) k')"
  by (auto simp: dict_get_def map_of_dict_set split: option.splits)

lemma dict_get_entry:
  "dict_get (m\<lparr>entries := dict_set (entries m) k v\<rparr>) k' = (if k' = k then Own v else dict_get m k')"
  by (simp add: dict_get_entries)

text \<open>
  Replacing the tag that is the prototype by one with the same name, description,
  trait flag and flag \<^verbatim>\<open>used\<close> changes what \<^verbatim>\<open>__proto__\<close> reads, and nothing else.
\<close>

lemma dict_get_prototype:
  assumes "dict_get m k = Prototype p" and "prototypeMember p' = prototypeMember p"
  shows "dict_get (m\<lparr>prototype := Some p'\<rparr>) k' = (if k' = k then Prototype p' else dict_get m k')"
  using dict_get_Prototype [OF assms(1)] assms(2)
  by (auto simp: dict_get_def split: option.splits)

lemma prototypeMember_operations:
  "prototypeMember (tag\<lparr>operations := xs\<rparr>) = prototypeMember tag"
  by (rule ext) (simp add: prototypeMember_def)

lemma dict_get_anonymous:
  "dict_get m [] = Undefined \<or> (\<exists>tag. dict_get m [] = Own tag)"
  by (auto simp: dict_get_def prototypeMember_def objectPrototypeKeys_def split: option.splits)

lemma dict_get_tag:
  assumes "''__proto__'' \<notin> set (object_keys m)" and "tagOf (dict_get m n) = Some tag"
  shows "dict_get m n = (if n = ''__proto__'' then Prototype tag else Own tag)"
proof (cases "dict_get m n")
  case (Own t)
  with assms dict_get_Own_key [OF Own] show ?thesis by (auto simp: tagOf_def)
next
  case (Prototype t)
  with assms dict_get_Prototype(1) [OF Prototype] show ?thesis by (auto simp: tagOf_def)
qed (use assms(2) in \<open>simp_all add: tagOf_def\<close>)

section \<open>Iteration\<close>

lemma for_each_invariant:
  assumes "for_each body xs s = Inr s'" and "P s"
    and "\<And>x t t'. x \<in> set xs \<Longrightarrow> P t \<Longrightarrow> body x t = Inr t' \<Longrightarrow> P t'"
  shows "P s'"
  using assms
proof (induction xs arbitrary: s)
  case Nil
  then show ?case by simp
next
  case (Cons x xs)
  from Cons.prems(1) obtain t where t: "body x s = Inr t" "for_each body xs t = Inr s'"
    by (auto split: sum.splits)
  have "P t" using Cons.prems(2,3) t(1) by auto
  then show ?case using Cons.IH [OF t(2)] Cons.prems(3) by auto
qed

lemma for_each_total:
  assumes "P s"
    and "\<And>x t. x \<in> set xs \<Longrightarrow> P t \<Longrightarrow> \<exists>t'. body x t = Inr t' \<and> P t'"
  shows "\<exists>s'. for_each body xs s = Inr s' \<and> P s'"
  using assms
proof (induction xs arbitrary: s)
  case Nil
  then show ?case by simp
next
  case (Cons x xs)
  from Cons.prems(2) [of x s] Cons.prems(1) obtain t where t: "body x s = Inr t" "P t" by auto
  from Cons.IH [OF t(2)] Cons.prems(2) obtain s' where "for_each body xs t = Inr s'" "P s'"
    by auto
  with t show ?case by simp
qed

section \<open>Seeding the tag map\<close>

lemma assign_no_proto:
  "''__proto__'' \<notin> set (object_keys m) \<Longrightarrow> ''__proto__'' \<notin> set (object_keys (assign m k v))"
  by (simp add: assign_def object_keys_def keys_dict_set)

lemma assign_distinct:
  "distinct (object_keys m) \<Longrightarrow> distinct (object_keys (assign m k v))"
  by (simp add: assign_def object_keys_def distinct_dict_set)

lemma tagOf_assign:
  assumes "''__proto__'' \<notin> set (object_keys m)"
  shows "tagOf (dict_get (assign m k v) n) = (if n = k then Some v else tagOf (dict_get m n))"
proof (cases "k = ''__proto__''")
  case False
  then show ?thesis by (simp add: assign_def dict_get_entry tagOf_def)
next
  case True
  from assms have "map_of (entries m) ''__proto__'' = None" by (rule dict_get_no_key)
  with True show ?thesis
    by (auto simp: assign_def dict_get_def tagOf_def split: option.splits)
qed

lemma seedTags_no_proto:
  "''__proto__'' \<notin> set (object_keys tags0) \<Longrightarrow>
     ''__proto__'' \<notin> set (object_keys (seedTags declared tags0))"
  by (induction declared arbitrary: tags0) (simp_all add: assign_no_proto)

lemma seedTags_distinct:
  "distinct (object_keys tags0) \<Longrightarrow> distinct (object_keys (seedTags declared tags0))"
  by (induction declared arbitrary: tags0) (simp_all add: assign_distinct)

lemma find_snoc:
  "find P (xs @ [x]) = (case find P xs of Some y \<Rightarrow> Some y | None \<Rightarrow> if P x then Some x else None)"
  by (induction xs) auto

text \<open>
  The tag that a name reads in the seeded map is the copy of its last declaration.
\<close>

lemma seedTags_tagOf:
  assumes "''__proto__'' \<notin> set (object_keys tags0)"
  shows "tagOf (dict_get (seedTags declared tags0) n) =
           (case declaredAs n declared of
              Some d \<Rightarrow> Some (seedTag d)
            | None \<Rightarrow> tagOf (dict_get tags0 n))"
  using assms
proof (induction declared arbitrary: tags0)
  case Nil
  then show ?case by (simp add: declaredAs_def)
next
  case (Cons x declared)
  from Cons.IH [OF assign_no_proto [OF Cons.prems], of "name x" "seedTag x"] Cons.prems
  show ?case
    by (auto simp: declaredAs_def find_snoc tagOf_assign split: option.splits)
qed

lemma emptyTags_keys: "object_keys emptyTags = []"
  by (simp add: emptyTags_def object_keys_def)

lemma seeded_tagOf:
  "tagOf (dict_get (seedTags declared emptyTags) n) = map_option seedTag (declaredAs n declared)"
proof -
  have "tagOf (dict_get emptyTags n) = None"
    by (simp add: dict_get_empty_tags tagOf_def)
  then show ?thesis
    using seedTags_tagOf [of emptyTags declared n]
    by (simp add: emptyTags_keys split: option.splits)
qed

lemma find_Some_set: "find P xs = Some x \<Longrightarrow> x \<in> set xs \<and> P x"
  by (induction xs) (auto split: if_splits)

lemma declaredAs_Some:
  assumes "declaredAs n declared = Some d"
  shows "d \<in> set declared" and "name d = n"
  using assms find_Some_set [of "\<lambda>tag. name tag = n" "rev declared" d]
  by (auto simp: declaredAs_def)

lemma declaredAs_declared:
  assumes "d \<in> set declared"
  shows "\<exists>d'. declaredAs (name d) declared = Some d'"
  using assms by (cases "declaredAs (name d) declared") (auto simp: declaredAs_def find_None_iff)

section \<open>The tag collector\<close>

lemma pushed_Nil: "pushed n [] entry = entry"
  by (simp add: pushed_def)

lemma pushed_append: "pushed n ys (pushed n xs entry) = pushed n (xs @ ys) entry"
  by (cases entry) (auto simp: pushed_def newTag_def isTrait_def)

lemma for_each_pushed:
  assumes "for_each body xs s = Inr s'"
    and "\<And>x t t'. x \<in> set xs \<Longrightarrow> body x t = Inr t' \<Longrightarrow> dict_get t' n = pushed n (g x) (dict_get t n)"
  shows "dict_get s' n = pushed n (concat (map g xs)) (dict_get s n)"
  using assms
proof (induction xs arbitrary: s)
  case Nil
  then show ?case by (simp add: pushed_Nil)
next
  case (Cons x xs)
  from Cons.prems(1) obtain t where t: "body x s = Inr t" "for_each body xs t = Inr s'"
    by (auto split: sum.splits)
  have "dict_get t n = pushed n (g x) (dict_get s n)"
    using Cons.prems(2) t(1) by simp
  moreover have "dict_get s' n = pushed n (concat (map g xs)) (dict_get t n)"
    using Cons.IH [OF t(2)] Cons.prems(2) by simp
  ultimately show ?case by (simp add: pushed_append)
qed

lemma addToTag_pushed:
  assumes "addToTag operation tagName t = Inr t'"
  shows "dict_get t' n = pushed n (if tagName = n then [operation] else []) (dict_get t n)"
proof (cases "dict_get t tagName")
  case Undefined
  with assms show ?thesis
    by (auto simp: addToTag_def pushed_def dict_get_entries newTag_def)
next
  case (Own tag)
  with assms show ?thesis
    by (auto simp: addToTag_def pushed_def dict_get_entry split: if_splits)
next
  case (Prototype tag)
  with assms show ?thesis
    by (auto simp: addToTag_def pushed_def dict_get_prototype [OF Prototype]
        prototypeMember_operations split: if_splits)
next
  case Inherited
  with assms show ?thesis by (simp add: addToTag_def)
next
  case InheritedFalsy
  with assms show ?thesis by (simp add: addToTag_def)
qed

text \<open>The three loops of the collector keep what every step of the innermost keeps.\<close>

lemma collector_invariant:
  assumes "getTagsWithOperations spec = Inr tagsMap"
    and "P (seedTags (declaredTags spec) emptyTags)"
    and "\<And>operation tagName t t'. P t \<Longrightarrow> addToTag operation tagName t = Inr t' \<Longrightarrow> P t'"
  shows "P tagsMap"
proof -
  from assms(1) have loop: "for_each
            (\<lambda>(pathName', path).
               for_each
                 (\<lambda>(operationName, operationInfo).
                    for_each
                      (addToTag (extendOperation pathName' path operationName operationInfo))
                      (operationTags operationInfo))
                 (filter (\<lambda>(key, _). isOperationName key) (members path)))
            (paths spec) (seedTags (declaredTags spec) emptyTags) = Inr tagsMap"
    by (simp add: getTagsWithOperations_def)
  show ?thesis
  proof (rule for_each_invariant [where P = P, OF loop assms(2)], goal_cases)
    case (1 x t t')
    obtain pathName' path where x: "x = (pathName', path)" by (cases x)
    from 1(3) have inner: "for_each
                 (\<lambda>(operationName, operationInfo).
                    for_each
                      (addToTag (extendOperation pathName' path operationName operationInfo))
                      (operationTags operationInfo))
                 (filter (\<lambda>(key, _). isOperationName key) (members path)) t = Inr t'"
      by (simp add: x)
    show ?case
    proof (rule for_each_invariant [where P = P, OF inner 1(2)], goal_cases)
      case (1 y u u')
      obtain operationName operationInfo where y: "y = (operationName, operationInfo)" by (cases y)
      from 1(3) have innermost: "for_each
                      (addToTag (extendOperation pathName' path operationName operationInfo))
                      (operationTags operationInfo) u = Inr u'"
        by (simp add: y)
      show ?case
        by (rule for_each_invariant [where P = P, OF innermost 1(2)]) (rule assms(3))
    qed
  qed
qed

text \<open>
  What a name reads in the collected map: what it read in the seeded map, with the
  operations that carry it filed under it.
\<close>

lemma getTagsWithOperations_pushed:
  assumes "getTagsWithOperations spec = Inr tagsMap"
  shows "dict_get tagsMap n =
           pushed n (operationsUnder n (paths spec))
             (dict_get (seedTags (declaredTags spec) emptyTags) n)"
proof -
  from assms have loop: "for_each
            (\<lambda>(pathName', path).
               for_each
                 (\<lambda>(operationName, operationInfo).
                    for_each
                      (addToTag (extendOperation pathName' path operationName operationInfo))
                      (operationTags operationInfo))
                 (filter (\<lambda>(key, _). isOperationName key) (members path)))
            (paths spec) (seedTags (declaredTags spec) emptyTags) = Inr tagsMap"
    by (simp add: getTagsWithOperations_def)
  show ?thesis
    unfolding operationsUnder_def
  proof (rule for_each_pushed [OF loop], goal_cases)
    case (1 x t t')
    obtain pathName' path where x: "x = (pathName', path)" by (cases x)
    from 1(2) have inner: "for_each
                 (\<lambda>(operationName, operationInfo).
                    for_each
                      (addToTag (extendOperation pathName' path operationName operationInfo))
                      (operationTags operationInfo))
                 (filter (\<lambda>(key, _). isOperationName key) (members path)) t = Inr t'"
      by (simp add: x)
    show ?case
      unfolding x prod.case
    proof (rule for_each_pushed [OF inner], goal_cases)
      case (1 y u u')
      obtain operationName operationInfo where y: "y = (operationName, operationInfo)" by (cases y)
      from 1(2) have innermost: "for_each
                      (addToTag (extendOperation pathName' path operationName operationInfo))
                      (operationTags operationInfo) u = Inr u'"
        by (simp add: y)
      show ?case
        unfolding y prod.case
        by (rule for_each_pushed [OF innermost]) (rule addToTag_pushed)
    qed
  qed
qed

lemma addToTag_keys:
  assumes "addToTag operation tagName t = Inr t'"
    and "distinct (object_keys t) \<and> ''__proto__'' \<notin> set (object_keys t)"
  shows "distinct (object_keys t') \<and> ''__proto__'' \<notin> set (object_keys t')"
proof (cases "dict_get t tagName")
  case Undefined
  then have proto: "tagName \<noteq> ''__proto__''"
    by (auto simp: dict_get_def objectPrototypeKeys_def split: option.splits if_splits)
  from Undefined assms(1) have t': "t' = t\<lparr>entries :=
      dict_set (dict_set (entries t) tagName (newTag tagName)) tagName
        ((newTag tagName)\<lparr>operations := [operation]\<rparr>)\<rparr>"
    by (simp add: addToTag_def)
  have "set (object_keys t') = insert tagName (set (object_keys t))"
    unfolding t' object_keys_def by (simp add: keys_dict_set)
  moreover have "distinct (object_keys t')"
    unfolding t' object_keys_def using assms(2) by (simp add: distinct_dict_set object_keys_def)
  ultimately show ?thesis using assms(2) proto by auto
next
  case (Own tag)
  from dict_get_Own_key [OF Own] assms(2) have proto: "tagName \<noteq> ''__proto__''" by auto
  show ?thesis
  proof (cases "isTrait tag")
    case True
    with Own assms show ?thesis by (simp add: addToTag_def)
  next
    case False
    with Own assms(1) have t': "t' = t\<lparr>entries :=
        dict_set (entries t) tagName (tag\<lparr>operations := operations tag @ [operation]\<rparr>)\<rparr>"
      by (simp add: addToTag_def)
    have "set (object_keys t') = insert tagName (set (object_keys t))"
      unfolding t' object_keys_def by (simp add: keys_dict_set)
    moreover have "distinct (object_keys t')"
      unfolding t' object_keys_def using assms(2) by (simp add: distinct_dict_set object_keys_def)
    ultimately show ?thesis using assms(2) proto by auto
  qed
next
  case (Prototype tag)
  with assms show ?thesis
    by (auto simp: addToTag_def object_keys_def split: if_splits)
next
  case Inherited
  with assms show ?thesis by (simp add: addToTag_def)
next
  case InheritedFalsy
  with assms show ?thesis by (simp add: addToTag_def)
qed

lemma getTagsWithOperations_keys:
  assumes "getTagsWithOperations spec = Inr tagsMap"
  shows "distinct (object_keys tagsMap)" and "''__proto__'' \<notin> set (object_keys tagsMap)"
proof -
  have "distinct (object_keys tagsMap) \<and> ''__proto__'' \<notin> set (object_keys tagsMap)"
    using assms
  proof (rule collector_invariant, goal_cases)
    case 1
    show ?case
      by (simp add: seedTags_distinct seedTags_no_proto emptyTags_keys)
  next
    case (2 operation tagName t t')
    from addToTag_keys [OF 2(2,1)] show ?case .
  qed
  then show "distinct (object_keys tagsMap)" and "''__proto__'' \<notin> set (object_keys tagsMap)"
    by simp_all
qed

text \<open>
  The tag that a name reads in the collected map: the copy of its last declaration, or
  a tag created for the name; with the operations that carry the name, unless it is a
  trait tag.
\<close>

lemma collected_tag:
  assumes "getTagsWithOperations spec = Inr tagsMap"
    and "tagOf (dict_get tagsMap n) = Some tag"
  shows "name tag = n" and "used tag = None"
    and "operations tag = (if isTrait tag then [] else operationsUnder n (paths spec))"
    and "description tag = (case declaredAs n (declaredTags spec) of
                              Some d \<Rightarrow> description d | None \<Rightarrow> None)"
    and "x_traitTag tag = (case declaredAs n (declaredTags spec) of
                             Some d \<Rightarrow> x_traitTag d | None \<Rightarrow> None)"
proof -
  let ?seeded = "seedTags (declaredTags spec) emptyTags"
  note entry = getTagsWithOperations_pushed [OF assms(1), of n]
  note seeded = seeded_tagOf [of "declaredTags spec" n]
  have "name tag = n \<and> used tag = None
    \<and> operations tag = (if isTrait tag then [] else operationsUnder n (paths spec))
    \<and> description tag = (case declaredAs n (declaredTags spec) of
                              Some d \<Rightarrow> description d | None \<Rightarrow> None)
    \<and> x_traitTag tag = (case declaredAs n (declaredTags spec) of
                             Some d \<Rightarrow> x_traitTag d | None \<Rightarrow> None)"
  proof (cases "dict_get ?seeded n")
    case Undefined
    with entry assms(2) seeded show ?thesis
      by (auto simp: pushed_def newTag_def tagOf_def isTrait_def split: if_splits option.splits)
  next
    case (Own tag0)
    with seeded obtain d where d: "declaredAs n (declaredTags spec) = Some d" "tag0 = seedTag d"
      by (cases "declaredAs n (declaredTags spec)") (auto simp: tagOf_def)
    from declaredAs_Some(2) [OF d(1)] Own entry assms(2) d show ?thesis
      by (auto simp: pushed_def tagOf_def isTrait_def seedTag_def split: if_splits)
  next
    case (Prototype tag0)
    with seeded obtain d where d: "declaredAs n (declaredTags spec) = Some d" "tag0 = seedTag d"
      by (cases "declaredAs n (declaredTags spec)") (auto simp: tagOf_def)
    from declaredAs_Some(2) [OF d(1)] Prototype entry assms(2) d show ?thesis
      by (auto simp: pushed_def tagOf_def isTrait_def seedTag_def split: if_splits)
  next
    case Inherited
    with entry assms(2) show ?thesis
      by (auto simp: pushed_def tagOf_def split: if_splits)
  next
    case InheritedFalsy
    with entry assms(2) show ?thesis
      by (auto simp: pushed_def tagOf_def split: if_splits)
  qed
  then show "name tag = n" and "used tag = None"
    and "operations tag = (if isTrait tag then [] else operationsUnder n (paths spec))"
    and "description tag = (case declaredAs n (declaredTags spec) of
                              Some d \<Rightarrow> description d | None \<Rightarrow> None)"
    and "x_traitTag tag = (case declaredAs n (declaredTags spec) of
                             Some d \<Rightarrow> x_traitTag d | None \<Rightarrow> None)"
    by simp_all
qed

text \<open>A declared tag is in the collected map: its name reads the copy of a declaration.\<close>

lemma declared_tag_collected:
  assumes "getTagsWithOperations spec = Inr tagsMap" and "d \<in> set (declaredTags spec)"
  shows "\<exists>tag. dict_get tagsMap (name d) =
                  (if name d = ''__proto__'' then Prototype tag else Own tag)"
proof -
  let ?seeded = "seedTags (declaredTags spec) emptyTags"
  from declaredAs_declared [OF assms(2)] obtain d' where
    "declaredAs (name d) (declaredTags spec) = Some d'" by blast
  then have seeded: "tagOf (dict_get ?seeded (name d)) = Some (seedTag d')"
    by (simp add: seeded_tagOf)
  have "\<exists>tag. tagOf (dict_get tagsMap (name d)) = Some tag"
    using seeded getTagsWithOperations_pushed [OF assms(1), of "name d"]
    by (cases "dict_get ?seeded (name d)") (auto simp: pushed_def tagOf_def)
  then obtain tag where "tagOf (dict_get tagsMap (name d)) = Some tag" by blast
  from dict_get_tag [OF getTagsWithOperations_keys(2) [OF assms(1)] this] show ?thesis
    by blast
qed


section \<open>The collector on the example descriptions\<close>

lemmas collector_defs = getTagsWithOperations_def declaredTags_def emptyTags_def assign_def
  seedTag_def newTag_def addToTag_def isTrait_def operationTags_def extendOperation_def
  dict_get_def dict_set_def prototypeMember_def isArrayIndex_def isDigit_def decimal_def
  isOperationName_def operationNames_def objectPrototypeKeys_def

lemmas example_defs = petstore_def petsPath_def healthPath_def storeDeclared_def tagged_def
  untagged_def addPet_def listPets_def health_def petstoreTags_def petsTag_def pagingTag_def
  storeTag_def healthTag_def

lemmas prototyped_defs = prototyped_def protoDeclared_def protoPath_def tagged_def
  protoList_def protoPut_def protoTag_def protoPets_def prototypedTags_def

lemma petstore_collected: "getTagsWithOperations petstore = Inr petstoreTags"
  by (simp add: collector_defs example_defs)

lemma prototyped_collected: "getTagsWithOperations prototyped = Inr prototypedTags"
  by (simp add: collector_defs prototyped_defs)

lemma numbered_collected:
  "\<exists>tagsMap. getTagsWithOperations numbered = Inr tagsMap
     \<and> object_keys tagsMap = [''9'', ''10'', ''b'']"
  by (simp add: collector_defs numbered_def object_keys_def)

lemma getTagsWithOperations_groups:
  "getTagsWithOperations (spec\<lparr>x_tagGroups := gs\<rparr>) = getTagsWithOperations spec"
  by (simp add: getTagsWithOperations_def declaredTags_def cong: sum.case_cong)

section \<open>Expanding every tag of the map\<close>

lemma mark_idem: "mark (mark tag) = mark tag"
  by (simp add: mark_def)

lemma dict_get_middle:
  assumes "k \<notin> fst ` set pre"
  shows "dict_get \<lparr>entries = pre @ (k, v) # suf, prototype = p\<rparr> k = Own v"
proof -
  have "map_of pre k = None"
    using assms by (simp add: map_of_eq_None_iff)
  then show ?thesis
    by (simp add: dict_get_def map_add_def)
qed

lemma replace_absent:
  "k \<notin> fst ` set d \<Longrightarrow> map (\<lambda>(k', v'). if k' = k then (k', v) else (k', v')) d = d"
  by (induction d) auto

lemma dict_set_middle:
  assumes "k \<notin> fst ` set pre" and "k \<notin> fst ` set suf"
  shows "dict_set (pre @ (k, v) # suf) k w = pre @ (k, w) # suf"
  using assms by (simp add: dict_set_def replace_absent)

lemma markTags_all:
  assumes "distinct (map fst (pre @ suf))"
  shows "markTags g (map fst suf) (\<lparr>entries = pre @ suf, prototype = p\<rparr>, console) =
           Inr (map (\<lambda>(k, tag). Own (mark tag)) suf,
                \<lparr>entries = pre @ map (\<lambda>(k, tag). (k, mark tag)) suf, prototype = p\<rparr>, console)"
  using assms
proof (induction suf arbitrary: pre)
  case Nil
  then show ?case by simp
next
  case (Cons e suf)
  obtain k tag where e: "e = (k, tag)" by (cases e)
  from Cons.prems have k: "k \<notin> fst ` set pre" "k \<notin> fst ` set suf"
    by (auto simp: e)
  have rest: "distinct (map fst ((pre @ [(k, mark tag)]) @ suf))"
    using Cons.prems by (auto simp: e)
  have "markTags g (map fst suf) (\<lparr>entries = pre @ (k, mark tag) # suf, prototype = p\<rparr>, console) =
           Inr (map (\<lambda>(k, tag). Own (mark tag)) suf,
                \<lparr>entries = (pre @ [(k, mark tag)]) @ map (\<lambda>(k, tag). (k, mark tag)) suf,
                 prototype = p\<rparr>, console)"
    using Cons.IH [OF rest] by simp
  then show ?case
    by (simp add: e dict_get_middle [OF k(1)] dict_set_middle [OF k] mark_def)
qed

lemma tagsLoop_entries:
  "tagsLoop eh parent (map (\<lambda>(k, tag). Own (f tag)) es) =
     Inr (concat (map (\<lambda>(k, tag). tagItems eh parent (f tag)) es))"
  by (induction es) auto

lemma getTagsItems_all:
  assumes "distinct (object_keys tagsMap)"
  shows "getTagsItems eh tagsMap parent None console =
           Inr (concat (map (\<lambda>(k, tag). tagItems eh parent (mark tag)) (entries tagsMap)),
                tagsMap\<lparr>entries := map (\<lambda>(k, tag). (k, mark tag)) (entries tagsMap)\<rparr>, console)"
proof -
  obtain es p where m: "tagsMap = \<lparr>entries = es, prototype = p\<rparr>" by (cases tagsMap)
  from assms have "distinct (map fst ([] @ es))" by (simp add: m object_keys_def)
  from markTags_all [OF this, of None p console] tagsLoop_entries [of eh parent mark es]
  show ?thesis
    by (simp add: getTagsItems_def m object_keys_def)
qed

lemma tagItems_used: "tagItems eh parent (tag\<lparr>used := u\<rparr>) = tagItems eh parent tag"
  by (simp add: tagItems_def tagGroup_def getOperationsItems_def)

lemma tagItems_mark: "tagItems eh parent (mark tag) = tagItems eh parent tag"
  by (simp add: mark_def tagItems_used)

lemma buildStructureRun_ungrouped:
  assumes "getTagsWithOperations spec = Inr tagsMap"
    and "x_tagGroups spec = None \<or> x_tagGroups spec = Some []"
  shows "buildStructureRun eh spec =
           Inr (addMarkdownItems eh (orEmpty (info_description spec)) None
                @ allTagsItems eh tagsMap,
                tagsMap\<lparr>entries := map (\<lambda>(k, tag). (k, mark tag)) (entries tagsMap)\<rparr>, [])"
  using assms getTagsItems_all [OF getTagsWithOperations_keys(1) [OF assms(1)]]
  by (auto simp: buildStructureRun_def allTagsItems_def tagItems_mark)

section \<open>Expanding the tags of a group\<close>

lemma markedFrom_refl: "markedFrom k entry entry"
  by (cases entry) (simp_all add: markedFrom_def)

lemma marksOnly_refl: "marksOnly m m"
  by (simp add: marksOnly_def markedFrom_refl)

lemma marksOnly_own:
  assumes "marksOnly m0 m" and "dict_get m k = Own tag"
  shows "marksOnly m0 (m\<lparr>entries := dict_set (entries m) k (tag\<lparr>used := Some True\<rparr>)\<rparr>)"
  unfolding marksOnly_def
proof
  fix k'
  from assms(1) have before: "markedFrom k' (dict_get m0 k') (dict_get m k')"
    by (simp add: marksOnly_def)
  show "markedFrom k' (dict_get m0 k')
          (dict_get (m\<lparr>entries := dict_set (entries m) k (tag\<lparr>used := Some True\<rparr>)\<rparr>) k')"
  proof (cases "k' = k")
    case False
    with before show ?thesis by (simp add: dict_get_entry)
  next
    case True
    with before assms(2) show ?thesis
      by (cases "dict_get m0 k") (auto simp: dict_get_entry markedFrom_def mark_def)
  qed
qed

text \<open>
  Marking the tag that is the prototype changes what \<^verbatim>\<open>__proto__\<close> reads, and what
  \<^verbatim>\<open>used\<close> reads when no entry has that name: the flag, which is true.
\<close>

lemma dict_get_mark_prototype:
  assumes "dict_get m k = Prototype tag"
  shows "dict_get (m\<lparr>prototype := Some (tag\<lparr>used := Some True\<rparr>)\<rparr>) k' =
           (if k' = k then Prototype (mark tag)
            else if k' = ''used'' \<and> map_of (entries m) k' = None then Inherited
            else dict_get m k')"
  using dict_get_Prototype [OF assms]
  by (auto simp: dict_get_def prototypeMember_def mark_def split: option.splits)

lemma marksOnly_prototype:
  assumes "marksOnly m0 m" and "dict_get m k = Prototype tag"
  shows "marksOnly m0 (m\<lparr>prototype := Some (tag\<lparr>used := Some True\<rparr>)\<rparr>)"
  unfolding marksOnly_def
proof
  fix k'
  let ?m1 = "m\<lparr>prototype := Some (tag\<lparr>used := Some True\<rparr>)\<rparr>"
  from assms(1) have before: "markedFrom k' (dict_get m0 k') (dict_get m k')"
    by (simp add: marksOnly_def)
  note after = dict_get_mark_prototype [OF assms(2), of k']
  consider (same) "k' = k" | (flag) "k' \<noteq> k" "k' = ''used''" "map_of (entries m) k' = None"
    | (other) "dict_get ?m1 k' = dict_get m k'"
    using after by (auto split: if_splits)
  then show "markedFrom k' (dict_get m0 k') (dict_get ?m1 k')"
  proof cases
    case same
    with before assms(2) after show ?thesis
      by (cases "dict_get m0 k") (auto simp: markedFrom_def mark_def)
  next
    case flag
    from flag(1,3) have "\<nexists>t. dict_get m k' = Own t" "\<nexists>t. dict_get m k' = Prototype t"
      using dict_get_Prototype(1) [of m k'] dict_get_Prototype(1) [OF assms(2)]
      by (auto simp: dict_get_Own)
    with before flag after show ?thesis
      by (cases "dict_get m0 k'"; cases "dict_get m k'") (auto simp: markedFrom_def)
  next
    case other
    with before show ?thesis by simp
  qed
qed

lemma markTags_marksOnly:
  assumes "markTags g ks (m, c) = Inr (tags', m', c')" and "marksOnly m0 m"
  shows "marksOnly m0 m'"
  using assms
proof (induction ks arbitrary: m c tags')
  case Nil
  then show ?case by simp
next
  case (Cons k ks)
  show ?case
  proof (cases "dict_get m k")
    case Undefined
    with Cons.prems(1) obtain g' rest where "g = Some g'"
      and rest: "markTags g ks (m, c @ [nonExistingTag k (group_name g')]) = Inr (rest, m', c')"
      by (auto split: option.splits sum.splits)
    from Cons.IH [OF rest Cons.prems(2)] show ?thesis .
  next
    case InheritedFalsy
    with Cons.prems(1) obtain g' rest where "g = Some g'"
      and rest: "markTags g ks (m, c @ [nonExistingTag k (group_name g')]) = Inr (rest, m', c')"
      by (auto split: option.splits sum.splits)
    from Cons.IH [OF rest Cons.prems(2)] show ?thesis .
  next
    case Inherited
    with Cons.prems(1) obtain rest where "markTags g ks (m, c) = Inr (rest, m', c')"
      by (auto split: sum.splits)
    from Cons.IH [OF this Cons.prems(2)] show ?thesis .
  next
    case (Own tag)
    with Cons.prems(1) obtain rest where
      "markTags g ks (m\<lparr>entries := dict_set (entries m) k (tag\<lparr>used := Some True\<rparr>)\<rparr>, c) =
         Inr (rest, m', c')"
      by (auto split: sum.splits)
    from Cons.IH [OF this marksOnly_own [OF Cons.prems(2) Own]] show ?thesis .
  next
    case (Prototype tag)
    with Cons.prems(1) obtain rest where
      "markTags g ks (m\<lparr>prototype := Some (tag\<lparr>used := Some True\<rparr>)\<rparr>, c) = Inr (rest, m', c')"
      by (auto split: sum.splits)
    from Cons.IH [OF this marksOnly_prototype [OF Cons.prems(2) Prototype]] show ?thesis .
  qed
qed

text \<open>Every tag that a processed name reads is marked in the end.\<close>

lemma markTags_marked:
  assumes "markTags g ks (m, c) = Inr (tags', m', c')" and "marksOnly m0 m" and "k \<in> set ks"
  shows "(dict_get m0 k = Own tag \<longrightarrow> dict_get m' k = Own (mark tag))
    \<and> (dict_get m0 k = Prototype tag \<longrightarrow> dict_get m' k = Prototype (mark tag))"
  using assms
proof (induction ks arbitrary: m c tags')
  case Nil
  then show ?case by simp
next
  case (Cons k' ks)
  from Cons.prems(2) have before: "markedFrom k (dict_get m0 k) (dict_get m k)"
    by (simp add: marksOnly_def)
  show ?case
  proof (cases "dict_get m k'")
    case Undefined
    with Cons.prems(1) obtain g' rest where "g = Some g'"
      and rest: "markTags g ks (m, c @ [nonExistingTag k' (group_name g')]) = Inr (rest, m', c')"
      by (auto split: option.splits sum.splits)
    show ?thesis
    proof (cases "k = k'")
      case True
      with before Undefined show ?thesis by (auto simp: markedFrom_def)
    next
      case False
      with Cons.prems(3) Cons.IH [OF rest Cons.prems(2)] show ?thesis by simp
    qed
  next
    case InheritedFalsy
    with Cons.prems(1) obtain g' rest where "g = Some g'"
      and rest: "markTags g ks (m, c @ [nonExistingTag k' (group_name g')]) = Inr (rest, m', c')"
      by (auto split: option.splits sum.splits)
    show ?thesis
    proof (cases "k = k'")
      case True
      with before InheritedFalsy show ?thesis by (auto simp: markedFrom_def)
    next
      case False
      with Cons.prems(3) Cons.IH [OF rest Cons.prems(2)] show ?thesis by simp
    qed
  next
    case Inherited
    with Cons.prems(1) obtain rest where rest: "markTags g ks (m, c) = Inr (rest, m', c')"
      by (auto split: sum.splits)
    show ?thesis
    proof (cases "k = k'")
      case True
      with before Inherited show ?thesis by (auto simp: markedFrom_def)
    next
      case False
      with Cons.prems(3) Cons.IH [OF rest Cons.prems(2)] show ?thesis by simp
    qed
  next
    case (Own t)
    let ?m1 = "m\<lparr>entries := dict_set (entries m) k' (t\<lparr>used := Some True\<rparr>)\<rparr>"
    from Own Cons.prems(1) obtain rest where rest: "markTags g ks (?m1, c) = Inr (rest, m', c')"
      by (auto split: sum.splits)
    note m1 = marksOnly_own [OF Cons.prems(2) Own]
    show ?thesis
    proof (cases "k = k'")
      case True
      have "markedFrom k (dict_get ?m1 k) (dict_get m' k)"
        using markTags_marksOnly [OF rest marksOnly_refl] by (simp add: marksOnly_def)
      with before Own True show ?thesis
        by (auto simp: dict_get_entry markedFrom_def mark_def)
    next
      case False
      with Cons.prems(3) Cons.IH [OF rest m1] show ?thesis by simp
    qed
  next
    case (Prototype t)
    let ?m1 = "m\<lparr>prototype := Some (t\<lparr>used := Some True\<rparr>)\<rparr>"
    from Prototype Cons.prems(1) obtain rest where rest: "markTags g ks (?m1, c) = Inr (rest, m', c')"
      by (auto split: sum.splits)
    note m1 = marksOnly_prototype [OF Cons.prems(2) Prototype]
    show ?thesis
    proof (cases "k = k'")
      case True
      have "markedFrom k (dict_get ?m1 k) (dict_get m' k)"
        using markTags_marksOnly [OF rest marksOnly_refl] by (simp add: marksOnly_def)
      with before Prototype True show ?thesis
        by (auto simp: dict_get_mark_prototype [OF Prototype] markedFrom_def mark_def)
    next
      case False
      with Cons.prems(3) Cons.IH [OF rest m1] show ?thesis by simp
    qed
  qed
qed

lemma itemsAt_falsy: "falsy (dict_get m k) \<Longrightarrow> itemsAt eh parent m k = []"
  by (auto simp: itemsAt_def tagOf_def falsy_def)

text \<open>
  When the expansion of a list of names returns, its items are those of the tags that
  the names read in the map as the collector left it, and one warning was written for
  every name that read a falsy value.
\<close>

lemma markTags_items:
  assumes "markTags g ks (m, c) = Inr (tags', m', c')" and "tagsLoop eh parent tags' = Inr res"
    and "marksOnly m0 m"
  shows "res = concat (map (itemsAt eh parent m0) ks)
    \<and> (\<forall>g'. g = Some g' \<longrightarrow>
          c' = c @ map (\<lambda>k. nonExistingTag k (group_name g'))
                     (filter (\<lambda>k. falsy (dict_get m0 k)) ks))"
  using assms
proof (induction ks arbitrary: m c tags' res)
  case Nil
  then show ?case by simp
next
  case (Cons k ks)
  from Cons.prems(3) have before: "markedFrom k (dict_get m0 k) (dict_get m k)"
    by (simp add: marksOnly_def)
  show ?case
  proof (cases "dict_get m k")
    case Undefined
    with Cons.prems(1) obtain g' rest where g: "g = Some g'"
      and rest: "markTags g ks (m, c @ [nonExistingTag k (group_name g')]) = Inr (rest, m', c')"
      and tags': "tags' = Undefined # rest"
      by (auto split: option.splits sum.splits)
    from Cons.prems(2) have loop: "tagsLoop eh parent rest = Inr res" by (simp add: tags')
    from before Undefined have "dict_get m0 k = Undefined"
      by (cases "dict_get m0 k") (auto simp: markedFrom_def)
    with Cons.IH [OF rest loop Cons.prems(3)] g show ?thesis
      by (simp add: itemsAt_falsy falsy_def)
  next
    case InheritedFalsy
    with Cons.prems(1) obtain g' rest where g: "g = Some g'"
      and rest: "markTags g ks (m, c @ [nonExistingTag k (group_name g')]) = Inr (rest, m', c')"
      and tags': "tags' = Undefined # rest"
      by (auto split: option.splits sum.splits)
    from Cons.prems(2) have loop: "tagsLoop eh parent rest = Inr res" by (simp add: tags')
    from before InheritedFalsy have "dict_get m0 k = InheritedFalsy"
      by (cases "dict_get m0 k") (auto simp: markedFrom_def)
    with Cons.IH [OF rest loop Cons.prems(3)] g show ?thesis
      by (simp add: itemsAt_falsy falsy_def)
  next
    case Inherited
    with Cons.prems(1) obtain rest where "tags' = Inherited # rest"
      by (auto split: sum.splits)
    with Cons.prems(2) show ?thesis by simp
  next
    case (Own tag)
    let ?m1 = "m\<lparr>entries := dict_set (entries m) k (tag\<lparr>used := Some True\<rparr>)\<rparr>"
    from Own Cons.prems(1) obtain rest where rest: "markTags g ks (?m1, c) = Inr (rest, m', c')"
      and tags': "tags' = Own (tag\<lparr>used := Some True\<rparr>) # rest"
      by (auto split: sum.splits)
    from Cons.prems(2) obtain res' where loop: "tagsLoop eh parent rest = Inr res'"
      and res: "res = tagItems eh parent tag @ res'"
      by (auto simp: tags' tagItems_used split: sum.splits)
    from before Own obtain t0 where t0: "dict_get m0 k = Own t0" "tag = t0 \<or> tag = mark t0"
      by (cases "dict_get m0 k") (auto simp: markedFrom_def)
    then have "itemsAt eh parent m0 k = tagItems eh parent tag"
      by (auto simp: itemsAt_def tagOf_def tagItems_mark)
    with Cons.IH [OF rest loop marksOnly_own [OF Cons.prems(3) Own]] res t0(1) show ?thesis
      by (simp add: falsy_def)
  next
    case (Prototype tag)
    let ?m1 = "m\<lparr>prototype := Some (tag\<lparr>used := Some True\<rparr>)\<rparr>"
    from Prototype Cons.prems(1) obtain rest where rest: "markTags g ks (?m1, c) = Inr (rest, m', c')"
      and tags': "tags' = Prototype (tag\<lparr>used := Some True\<rparr>) # rest"
      by (auto split: sum.splits)
    from Cons.prems(2) obtain res' where loop: "tagsLoop eh parent rest = Inr res'"
      and res: "res = tagItems eh parent tag @ res'"
      by (auto simp: tags' tagItems_used split: sum.splits)
    from before Prototype obtain t0 where t0: "dict_get m0 k = Prototype t0" "tag = t0 \<or> tag = mark t0"
      by (cases "dict_get m0 k") (auto simp: markedFrom_def)
    then have "itemsAt eh parent m0 k = tagItems eh parent tag"
      by (auto simp: itemsAt_def tagOf_def tagItems_mark)
    with Cons.IH [OF rest loop marksOnly_prototype [OF Cons.prems(3) Prototype]] res t0(1)
    show ?thesis
      by (simp add: falsy_def)
  qed
qed

text \<open>What the loop of lines 142 to 165 appends for the elements of \<^verbatim>\<open>tags\<close>.\<close>

lemma tagsLoop_shape:
  "tagsLoop eh parent tags' =
     (if Inherited \<in> set tags' then Inl TypeError
      else Inr (concat (map (\<lambda>entry. case tagOf entry of
                                        Some tag \<Rightarrow> tagItems eh parent tag
                                      | None \<Rightarrow> [])
                          tags')))"
  by (induction eh parent tags' rule: tagsLoop.induct) (auto simp: tagOf_def)

lemma tagsLoop_append:
  assumes "tagsLoop eh parent before = Inr b" and "tagsLoop eh parent after = Inr a"
  shows "tagsLoop eh parent (before @ Own tag # after) = Inr (b @ tagItems eh parent tag @ a)"
  using assms by (simp add: tagsLoop_shape tagOf_def split: if_splits)

lemma getTagsItems_group:
  assumes "getTagsItems eh m parent (Some g) c = Inr (res, m', c')" and "marksOnly m0 m"
  shows "res = concat (map (itemsAt eh parent m0) (group_tags g))"
    and "marksOnly m0 m'"
    and "c' = c @ map (\<lambda>k. nonExistingTag k (group_name g))
                    (filter (\<lambda>k. falsy (dict_get m0 k)) (group_tags g))"
proof -
  from assms(1) obtain tags' where
    marked: "markTags (Some g) (group_tags g) (m, c) = Inr (tags', m', c')"
    and loop: "tagsLoop eh parent tags' = Inr res"
    by (auto simp: getTagsItems_def split: sum.splits)
  from markTags_marksOnly [OF marked assms(2)] show "marksOnly m0 m'" .
  from markTags_items [OF marked loop assms(2)]
  show "res = concat (map (itemsAt eh parent m0) (group_tags g))"
    and "c' = c @ map (\<lambda>k. nonExistingTag k (group_name g))
                    (filter (\<lambda>k. falsy (dict_get m0 k)) (group_tags g))"
    by simp_all
qed

lemma getTagsItems_marks:
  assumes "getTagsItems eh tagsMap parent group' console = Inr (res, tagsMap', console')"
    and "k \<in> set (case group' of None \<Rightarrow> object_keys tagsMap | Some g \<Rightarrow> group_tags g)"
  shows "dict_get tagsMap k = Own tag \<Longrightarrow> dict_get tagsMap' k = Own (mark tag)"
    and "dict_get tagsMap k = Prototype tag \<Longrightarrow> dict_get tagsMap' k = Prototype (mark tag)"
proof -
  from assms(1) obtain tags' where
    "markTags group' (case group' of None \<Rightarrow> object_keys tagsMap | Some g \<Rightarrow> group_tags g)
       (tagsMap, console) = Inr (tags', tagsMap', console')"
    by (auto simp: getTagsItems_def split: sum.splits)
  from markTags_marked [OF this marksOnly_refl assms(2)]
  show "dict_get tagsMap k = Own tag \<Longrightarrow> dict_get tagsMap' k = Own (mark tag)"
    and "dict_get tagsMap k = Prototype tag \<Longrightarrow> dict_get tagsMap' k = Prototype (mark tag)"
    by simp_all
qed

text \<open>
  With \<^verbatim>\<open>Object.prototype\<close> as the prototype of the map, the expansion of a group
  returns when no name of the group reads a member of \<^verbatim>\<open>Object.prototype\<close>.
\<close>

lemma markTags_total:
  assumes "prototype m = None" and "\<forall>k \<in> set ks. dict_get m k \<noteq> Inherited"
  shows "\<exists>tags' m' c'. markTags (Some g) ks (m, c) = Inr (tags', m', c') \<and> Inherited \<notin> set tags'"
  using assms
proof (induction ks arbitrary: m c)
  case Nil
  then show ?case by simp
next
  case (Cons k ks)
  show ?case
  proof (cases "dict_get m k")
    case Undefined
    from Cons.IH [of m "c @ [nonExistingTag k (group_name g)]"] Cons.prems Undefined
    show ?thesis by auto
  next
    case InheritedFalsy
    from Cons.IH [of m "c @ [nonExistingTag k (group_name g)]"] Cons.prems InheritedFalsy
    show ?thesis by auto
  next
    case Inherited
    with Cons.prems(2) show ?thesis by simp
  next
    case (Own tag)
    let ?m1 = "m\<lparr>entries := dict_set (entries m) k (tag\<lparr>used := Some True\<rparr>)\<rparr>"
    have "prototype ?m1 = None" "\<forall>k' \<in> set ks. dict_get ?m1 k' \<noteq> Inherited"
      using Cons.prems by (simp_all add: dict_get_entry)
    from Cons.IH [OF this, of c] Own show ?thesis by auto
  next
    case (Prototype tag)
    from dict_get_Prototype(2) [OF this] Cons.prems(1) show ?thesis by simp
  qed
qed

lemma getTagsItems_group_total:
  assumes "prototype m = None" and "\<forall>k \<in> set (group_tags g). dict_get m k \<noteq> Inherited"
  shows "\<exists>res m' c'. getTagsItems eh m parent (Some g) c = Inr (res, m', c')"
proof -
  from markTags_total [OF assms, of g c] obtain tags' m' c' where
    "markTags (Some g) (group_tags g) (m, c) = Inr (tags', m', c')" "Inherited \<notin> set tags'"
    by blast
  then show ?thesis
    by (simp add: getTagsItems_def tagsLoop_shape)
qed


section \<open>The nodes of the tree\<close>

lemma allNodes_append: "allNodes (xs @ ys) = allNodes xs @ allNodes ys"
  by (simp add: allNodes_def)

lemma allNodes_Nil: "allNodes [] = []"
  by (simp add: allNodes_def)

lemma allNodes_Cons: "allNodes (x # xs) = nodes x @ allNodes xs"
  by (simp add: allNodes_def)

lemma allNodes_concat: "set (allNodes (concat xss)) = (\<Union>xs \<in> set xss. set (allNodes xs))"
  by (induction xss) (simp_all add: allNodes_Nil allNodes_append)

lemma nodes_Group:
  "nodes (GroupModel type title parent depth items) =
     GroupModel type title parent depth items # allNodes items"
  by (simp add: allNodes_def)

lemma top_level_nodes: "set items \<subseteq> set (allNodes items)"
proof (induction items)
  case Nil
  then show ?case by simp
next
  case (Cons x items)
  have "x \<in> set (nodes x)" by (cases x) simp_all
  with Cons show ?case by (auto simp: allNodes_Cons)
qed

lemma mapHeadingsDeep_nodes:
  "x \<in> set (allNodes (mapHeadingsDeep parent headings depth)) \<Longrightarrow> isGroupOf Section x"
  by (induction parent headings depth rule: mapHeadingsDeep.induct)
     (auto simp: allNodes_Nil allNodes_Cons nodes_Group simp del: nodes.simps)

lemma mapHeadingsDeep_sectionsFrom:
  "list_all (sectionsFrom depth) (mapHeadingsDeep parent headings depth)"
  by (induction parent headings depth rule: mapHeadingsDeep.induct) auto

lemma addMarkdownItems_nodes:
  "x \<in> set (allNodes (addMarkdownItems eh text parent)) \<Longrightarrow> isGroupOf Section x"
  unfolding addMarkdownItems_def by (rule mapHeadingsDeep_nodes)

lemma getOperationsItems_map:
  "getOperationsItems parent tag depth =
     map (\<lambda>operation. OperationModel operation parent depth) (operations tag)"
  by (simp add: getOperationsItems_def)

lemma allNodes_operations:
  "allNodes (map (\<lambda>operation. OperationModel operation parent depth) es) =
     map (\<lambda>operation. OperationModel operation parent depth) es"
  by (induction es) (simp_all add: allNodes_def)

lemma getOperationsItems_nodes:
  "allNodes (getOperationsItems parent tag depth) = getOperationsItems parent tag depth"
  by (simp add: getOperationsItems_map allNodes_operations)

lemma tagItems_nodes:
  assumes "x \<in> set (allNodes (tagItems eh parent tag))"
  shows "isGroupOf Section x
    \<or> (\<exists>e p. x = OperationModel e p (GROUP_DEPTH + 2))
    \<or> (name tag \<noteq> [] \<and> x = tagGroup eh parent tag)"
proof (cases "name tag = []")
  case True
  with assms show ?thesis
    by (auto simp: tagItems_def allNodes_append getOperationsItems_map allNodes_operations
        dest: addMarkdownItems_nodes)
next
  case False
  with assms have "x = tagGroup eh parent tag
    \<or> x \<in> set (allNodes (addMarkdownItems eh (orEmpty (description tag)) (Some (Tag, name tag))))
    \<or> x \<in> set (getOperationsItems (Some (Tag, name tag)) tag (GROUP_DEPTH + 1 + 1))"
    by (auto simp: tagItems_def tagGroup_def allNodes_Cons allNodes_Nil nodes_Group allNodes_append
        getOperationsItems_nodes simp del: nodes.simps)
  with False show ?thesis
    by (auto simp: getOperationsItems_map dest: addMarkdownItems_nodes)
qed

lemma tagItems_top:
  assumes "c \<in> set (tagItems eh parent tag)"
  shows "isGroupOf Section c
    \<or> (\<exists>e. name tag = [] \<and> c = OperationModel e None (GROUP_DEPTH + 2))
    \<or> (name tag \<noteq> [] \<and> c = tagGroup eh parent tag)"
proof (cases "name tag = []")
  case True
  have "set xs \<subseteq> set (allNodes xs)" for xs :: "ContentItemModel list"
    by (rule top_level_nodes)
  with True assms show ?thesis
    by (auto simp: tagItems_def getOperationsItems_map dest!: addMarkdownItems_nodes)
next
  case False
  with assms show ?thesis by (simp add: tagItems_def)
qed

lemma tagGroup_children:
  assumes "c \<in> set (itemsOf (tagGroup eh parent tag))"
  shows "isGroupOf Section c
    \<or> (\<exists>e. c = OperationModel e (Some (Tag, name tag)) (depthOf (tagGroup eh parent tag) + 1))"
proof -
  have "set xs \<subseteq> set (allNodes xs)" for xs :: "ContentItemModel list"
    by (rule top_level_nodes)
  with assms show ?thesis
    by (auto simp: tagGroup_def getOperationsItems_map dest!: addMarkdownItems_nodes)
qed

lemma tagItems_tag_group:
  assumes "x \<in> set (allNodes (tagItems eh parent tag))" and "isGroupOf Tag x"
  shows "x = tagGroup eh parent tag" and "titleOf x = name tag"
proof -
  from tagItems_nodes [OF assms(1)] assms(2) show "x = tagGroup eh parent tag"
    by (cases x) auto
  then show "titleOf x = name tag" by (simp add: tagGroup_def)
qed

section \<open>What the builder returns\<close>

lemma getTagGroupsItems_shape:
  assumes "getTagGroupsItems eh parent gs m c = Inr (res, m', c')" and "marksOnly m0 m"
  shows "res = map (\<lambda>g. GroupModel Group (group_name g) parent GROUP_DEPTH (groupItems eh g m0)) gs
    \<and> marksOnly m0 m'"
  using assms
proof (induction gs arbitrary: m c res)
  case Nil
  then show ?case by simp
next
  case (Cons g gs)
  from Cons.prems(1) obtain its m1 c1 rest where
    first: "getTagsItems eh m (Some (Group, group_name g)) (Some g) c = Inr (its, m1, c1)"
    and others: "getTagGroupsItems eh parent gs m1 c1 = Inr (rest, m', c')"
    and res: "res = GroupModel Group (group_name g) parent GROUP_DEPTH its # rest"
    by (auto split: sum.splits)
  note f = getTagsItems_group [OF first Cons.prems(2)]
  from f(1) have its: "its = groupItems eh g m0"
    by (simp add: groupItems_def)
  from Cons.IH [OF others f(2)] its res show ?case by simp
qed

text \<open>What \<^verbatim>\<open>buildStructure\<close> returns, from the tag map of the collector.\<close>

lemma buildStructure_ungrouped:
  assumes "getTagsWithOperations spec = Inr tagsMap"
    and "x_tagGroups spec = None \<or> x_tagGroups spec = Some []"
  shows "buildStructure eh spec =
           Inr (addMarkdownItems eh (orEmpty (info_description spec)) None
                @ allTagsItems eh tagsMap)"
  using buildStructureRun_ungrouped [OF assms, of eh]
  by (simp add: buildStructure_def)

lemma buildStructure_grouped:
  assumes "getTagsWithOperations spec = Inr tagsMap"
    and "x_tagGroups spec = Some gs" and "gs \<noteq> []"
    and "buildStructure eh spec = Inr items"
  shows "items = addMarkdownItems eh (orEmpty (info_description spec)) None
                 @ map (\<lambda>g. GroupModel Group (group_name g) None GROUP_DEPTH (groupItems eh g tagsMap)) gs"
proof -
  from assms obtain res m' c' where
    run: "getTagGroupsItems eh None gs tagsMap [] = Inr (res, m', c')"
    and items: "items = addMarkdownItems eh (orEmpty (info_description spec)) None @ res"
    by (auto simp: buildStructure_def buildStructureRun_def split: sum.splits)
  from getTagGroupsItems_shape [OF run marksOnly_refl] items show ?thesis
    by simp
qed

lemma buildStructure_collected:
  assumes "buildStructure eh spec = Inr items"
  shows "\<exists>tagsMap. getTagsWithOperations spec = Inr tagsMap"
  using assms by (auto simp: buildStructure_def buildStructureRun_def split: sum.splits)

lemma buildStructure_cases:
  assumes "buildStructure eh spec = Inr items" and "getTagsWithOperations spec = Inr tagsMap"
  shows "items = addMarkdownItems eh (orEmpty (info_description spec)) None
                 @ (case x_tagGroups spec of
                      None \<Rightarrow> allTagsItems eh tagsMap
                    | Some gs \<Rightarrow>
                        if gs = [] then allTagsItems eh tagsMap
                        else map (\<lambda>g. GroupModel Group (group_name g) None GROUP_DEPTH
                                        (groupItems eh g tagsMap)) gs)"
proof (cases "x_tagGroups spec = None \<or> x_tagGroups spec = Some []")
  case True
  from buildStructure_ungrouped [OF assms(2) True, of eh] assms(1) True show ?thesis
    by auto
next
  case False
  then obtain gs where gs: "x_tagGroups spec = Some gs" "gs \<noteq> []"
    by (cases "x_tagGroups spec") auto
  from buildStructure_grouped [OF assms(2) gs assms(1)] gs show ?thesis
    by simp
qed

lemma allTagsItems_nodes:
  assumes "x \<in> set (allNodes (allTagsItems eh tagsMap))"
  shows "\<exists>k tag. (k, tag) \<in> set (entries tagsMap) \<and> x \<in> set (allNodes (tagItems eh None tag))"
  using assms by (auto simp: allTagsItems_def allNodes_concat)

lemma itemsAt_cases:
  assumes "x \<in> set (f (itemsAt eh parent tagsMap k))" and "f [] = []"
  shows "\<exists>tag. tagOf (dict_get tagsMap k) = Some tag \<and> x \<in> set (f (tagItems eh parent tag))"
  using assms by (cases "tagOf (dict_get tagsMap k)") (auto simp: itemsAt_def)

lemma groupItems_nodes:
  assumes "x \<in> set (allNodes (groupItems eh g tagsMap))"
  shows "\<exists>k tag. k \<in> set (group_tags g) \<and> tagOf (dict_get tagsMap k) = Some tag
           \<and> x \<in> set (allNodes (tagItems eh (Some (Group, group_name g)) tag))"
proof -
  from assms obtain k where k: "k \<in> set (group_tags g)"
    "x \<in> set (allNodes (itemsAt eh (Some (Group, group_name g)) tagsMap k))"
    by (auto simp: groupItems_def allNodes_concat)
  from itemsAt_cases [where f = allNodes, OF k(2) allNodes_Nil] k(1) show ?thesis by blast
qed

lemma groupItems_top:
  assumes "c \<in> set (groupItems eh g tagsMap)"
  shows "\<exists>k tag. k \<in> set (group_tags g) \<and> tagOf (dict_get tagsMap k) = Some tag
           \<and> c \<in> set (tagItems eh (Some (Group, group_name g)) tag)"
proof -
  from assms obtain k where k: "k \<in> set (group_tags g)"
    "c \<in> set (itemsAt eh (Some (Group, group_name g)) tagsMap k)"
    by (auto simp: groupItems_def)
  from itemsAt_cases [where f = "\<lambda>xs. xs", OF k(2)] k(1) show ?thesis by blast
qed

lemma allNodes_groups:
  assumes "x \<in> set (allNodes (map (\<lambda>g. GroupModel Group (group_name g) parent depth (f g)) gs))"
  shows "\<exists>g \<in> set gs. x = GroupModel Group (group_name g) parent depth (f g) \<or> x \<in> set (allNodes (f g))"
  using assms
  by (induction gs) (auto simp: allNodes_Nil allNodes_Cons nodes_Group simp del: nodes.simps)

text \<open>
  The nodes of the tree: sections, Operations, the Groups of named tags, each at the
  top level or under the Group of a group definition, and the Groups of the group
  definitions, whose children are items of tags.
\<close>

lemma buildStructure_nodes:
  assumes "buildStructure eh spec = Inr items" and "x \<in> set (allNodes items)"
  shows "isGroupOf Section x
    \<or> (\<exists>e p. x = OperationModel e p (GROUP_DEPTH + 2))
    \<or> (\<exists>tag parent. name tag \<noteq> [] \<and> (parent = None \<or> (\<exists>g. parent = Some (Group, g)))
          \<and> x = tagGroup eh parent tag)
    \<or> (\<exists>title its. x = GroupModel Group title None GROUP_DEPTH its
          \<and> (\<forall>c \<in> set its. \<exists>tag. c \<in> set (tagItems eh (Some (Group, title)) tag)))"
proof -
  from assms(1) obtain tagsMap where collected: "getTagsWithOperations spec = Inr tagsMap"
    using buildStructure_collected by blast
  note items = buildStructure_cases [OF assms(1) collected]
  let ?groups = "\<lambda>gs. map (\<lambda>g. GroupModel Group (group_name g) None GROUP_DEPTH
                                        (groupItems eh g tagsMap)) gs"
  from assms(2) items consider
    (narrative) "x \<in> set (allNodes (addMarkdownItems eh (orEmpty (info_description spec)) None))"
    | (tags) "x \<in> set (allNodes (allTagsItems eh tagsMap))"
    | (groups) gs where "x \<in> set (allNodes (?groups gs))"
    by (auto simp: allNodes_append split: option.splits if_splits)
  then show ?thesis
  proof cases
    case narrative
    then show ?thesis by (simp add: addMarkdownItems_nodes)
  next
    case tags
    then obtain tag where "x \<in> set (allNodes (tagItems eh None tag))"
      using allTagsItems_nodes by blast
    from tagItems_nodes [OF this] show ?thesis by blast
  next
    case groups
    then obtain g where g: "x = GroupModel Group (group_name g) None GROUP_DEPTH (groupItems eh g tagsMap)
        \<or> x \<in> set (allNodes (groupItems eh g tagsMap))"
      using allNodes_groups [where f = "\<lambda>g. groupItems eh g tagsMap"] by blast
    then show ?thesis
    proof
      assume "x = GroupModel Group (group_name g) None GROUP_DEPTH (groupItems eh g tagsMap)"
      moreover have "\<forall>c \<in> set (groupItems eh g tagsMap).
          \<exists>tag. c \<in> set (tagItems eh (Some (Group, group_name g)) tag)"
        using groupItems_top by blast
      ultimately show ?thesis by blast
    next
      assume "x \<in> set (allNodes (groupItems eh g tagsMap))"
      then obtain tag where "x \<in> set (allNodes (tagItems eh (Some (Group, group_name g)) tag))"
        using groupItems_nodes by blast
      from tagItems_nodes [OF this] show ?thesis by blast
    qed
  qed
qed

text \<open>
  Where the Group of a tag comes from: without tag groups from an entry of the map,
  with tag groups from a name that a group definition lists.
\<close>

lemma tag_group_origin:
  assumes "buildStructure eh spec = Inr items" and "getTagsWithOperations spec = Inr tagsMap"
    and "x \<in> set (allNodes items)" and "isGroupOf Tag x"
  shows "case x_tagGroups spec of
           None \<Rightarrow> titleOf x \<in> set (object_keys tagsMap)
         | Some gs \<Rightarrow>
             if gs = [] then titleOf x \<in> set (object_keys tagsMap)
             else \<exists>g \<in> set gs. titleOf x \<in> set (group_tags g)"
proof -
  note items = buildStructure_cases [OF assms(1,2)]
  let ?groups = "\<lambda>gs. map (\<lambda>g. GroupModel Group (group_name g) None GROUP_DEPTH
                                        (groupItems eh g tagsMap)) gs"
  from assms(3) items consider
    (narrative) "x \<in> set (allNodes (addMarkdownItems eh (orEmpty (info_description spec)) None))"
    | (tags) "x_tagGroups spec = None \<or> x_tagGroups spec = Some []"
        "x \<in> set (allNodes (allTagsItems eh tagsMap))"
    | (groups) gs where "x_tagGroups spec = Some gs" "gs \<noteq> []" "x \<in> set (allNodes (?groups gs))"
    by (auto simp: allNodes_append split: option.splits if_splits)
  then show ?thesis
  proof cases
    case narrative
    from addMarkdownItems_nodes [OF this] assms(4) show ?thesis by (cases x) auto
  next
    case tags
    from tags(2) obtain k tag where entry: "(k, tag) \<in> set (entries tagsMap)"
      and x: "x \<in> set (allNodes (tagItems eh None tag))"
      using allTagsItems_nodes by blast
    from dict_get_distinct [OF getTagsWithOperations_keys(1) [OF assms(2)] entry]
    have own: "dict_get tagsMap k = Own tag" .
    then have "name tag = k"
      using collected_tag(1) [OF assms(2), of k tag] by (simp add: tagOf_def)
    with tagItems_tag_group(2) [OF x assms(4)] dict_get_Own_key [OF own] tags(1) show ?thesis
      by auto
  next
    case groups
    from groups(3) obtain g where g: "g \<in> set gs"
      and x: "x = GroupModel Group (group_name g) None GROUP_DEPTH (groupItems eh g tagsMap)
        \<or> x \<in> set (allNodes (groupItems eh g tagsMap))"
      using allNodes_groups [where f = "\<lambda>g. groupItems eh g tagsMap"] by blast
    from x assms(4) have "x \<in> set (allNodes (groupItems eh g tagsMap))" by auto
    then obtain k tag where k: "k \<in> set (group_tags g)"
      and tag: "tagOf (dict_get tagsMap k) = Some tag"
      and x': "x \<in> set (allNodes (tagItems eh (Some (Group, group_name g)) tag))"
      using groupItems_nodes by blast
    from collected_tag(1) [OF assms(2) tag] tagItems_tag_group(2) [OF x' assms(4)] k
    have "titleOf x \<in> set (group_tags g)" by simp
    with g groups(1,2) show ?thesis by auto
  qed
qed

section \<open>The builder on the example descriptions\<close>

lemmas builder_defs = buildStructureRun_def buildStructure_def getTagsItems_def tagItems_def
  tagGroup_def getOperationsItems_def addMarkdownItems_def orEmpty_def GROUP_DEPTH_def
  nonExistingTag_def allTagsItems_def groupItems_def itemsAt_def tagOf_def mark_def

lemmas tree_defs = petstoreItems_def petsAtTop_def petstoreMarked_def groupedItems_def general_def
  petsInGeneral_def groupedMarked_def anonymousIntroItems_def shoppedItems_def
  prototypedItems_def prototypedMarked_def groupedPrototypeItems_def

lemma petstore_run: "buildStructureRun noHeadings petstore = Inr (petstoreItems, petstoreMarked, [])"
  using buildStructureRun_ungrouped [OF petstore_collected, of noHeadings]
  by (simp add: petstore_def)
     (simp add: example_defs tree_defs builder_defs noHeadings_def)

lemma petstore_built: "buildStructure noHeadings petstore = Inr petstoreItems"
  by (simp add: buildStructure_def petstore_run)

lemma prototyped_run:
  "buildStructureRun noHeadings prototyped = Inr (prototypedItems, prototypedMarked, [])"
  using buildStructureRun_ungrouped [OF prototyped_collected, of noHeadings]
  by (simp add: prototyped_def)
     (simp add: prototyped_defs tree_defs builder_defs noHeadings_def)

text \<open>What names read in the map of \<open>prototyped\<close>, whose prototype is a tag.\<close>

lemma prototyped_reads:
  "dict_get prototypedTags ''pets'' = Own protoPets
   \<and> dict_get prototypedTags ''__proto__'' = Prototype protoTag
   \<and> dict_get prototypedTags ''name'' = Inherited
   \<and> dict_get prototypedTags ''operations'' = Inherited
   \<and> dict_get prototypedTags ''toString'' = Inherited
   \<and> dict_get prototypedTags ''description'' = Undefined
   \<and> dict_get prototypedTags ''used'' = Undefined
   \<and> dict_get (prototypedTags\<lparr>prototype := Some (mark protoTag)\<rparr>) ''used'' = Inherited
   \<and> dict_get petstoreTags ''__proto__'' = Inherited"
  by (simp add: prototypedTags_def petstoreTags_def protoTag_def mark_def dict_get_def
      prototypeMember_def objectPrototypeKeys_def)

lemma grouped_collected: "getTagsWithOperations grouped = Inr petstoreTags"
  by (simp add: grouped_def getTagsWithOperations_groups petstore_collected)

lemma grouped_run:
  "buildStructureRun noHeadings grouped =
     Inr (groupedItems, groupedMarked, [nonExistingTag ''owners'' ''General''])"
  unfolding buildStructureRun_def grouped_collected
  by (simp add: grouped_def petstore_def)
     (simp add: example_defs tree_defs builder_defs noHeadings_def
        dict_get_def dict_set_def objectPrototypeKeys_def)

lemma grouped_built: "buildStructure noHeadings grouped = Inr groupedItems"
  by (simp add: buildStructure_def grouped_run)

lemma shopped_collected: "getTagsWithOperations shopped = Inr petstoreTags"
  by (simp add: shopped_def getTagsWithOperations_groups petstore_collected)

lemma shopped_built: "buildStructure noHeadings shopped = Inr shoppedItems"
  unfolding buildStructure_def buildStructureRun_def shopped_collected
  by (simp add: shopped_def shop_def petstore_def)
     (simp add: example_defs tree_defs builder_defs noHeadings_def
        dict_get_def dict_set_def objectPrototypeKeys_def)

lemma groupedPrototype_collected: "getTagsWithOperations groupedPrototype = Inr prototypedTags"
  by (simp add: groupedPrototype_def getTagsWithOperations_groups prototyped_collected)

lemma groupedPrototype_built:
  "buildStructure noHeadings groupedPrototype = Inr groupedPrototypeItems"
  unfolding buildStructure_def buildStructureRun_def groupedPrototype_collected
  by (simp add: groupedPrototype_def prototyped_def)
     (simp add: prototyped_defs tree_defs builder_defs noHeadings_def
        dict_get_def dict_set_def prototypeMember_def objectPrototypeKeys_def)

lemma anonymousIntro_built: "buildStructure introHeadings anonymousIntro = Inr anonymousIntroItems"
  by (simp add: collector_defs builder_defs anonymousIntro_def healthPath_def untagged_def
      health_def introHeadings_def anonymousIntroItems_def object_keys_def)

lemma groupedConstructor_aborts: "buildStructure noHeadings groupedConstructor = Inl TypeError"
proof -
  have "getTagsWithOperations groupedConstructor = Inr petstoreTags"
    by (simp add: groupedConstructor_def getTagsWithOperations_groups petstore_collected)
  then show ?thesis
    unfolding buildStructure_def buildStructureRun_def
    by (simp add: groupedConstructor_def petstore_def)
       (simp add: example_defs builder_defs noHeadings_def
          dict_get_def dict_set_def objectPrototypeKeys_def)
qed


section \<open>Names that read no tag\<close>

lemma array_indices:
  "isArrayIndex ''0'' \<and> isArrayIndex ''10'' \<and> isArrayIndex ''4294967294''
   \<and> \<not> isArrayIndex ''4294967295'' \<and> \<not> isArrayIndex ''01'' \<and> \<not> isArrayIndex []
   \<and> \<not> isArrayIndex ''1a'' \<and> \<not> isArrayIndex ''-1''"
  by (simp add: isArrayIndex_def isDigit_def decimal_def)

text \<open>
  An operation that carries a name which reads a value that is no tag makes the
  collector raise; a name that reads nothing gets an entry.
\<close>

lemma collector_raises:
  "getTagsWithOperations (carrying ''toString'' petstore) = Inl TypeError
   \<and> getTagsWithOperations (carrying ''__proto__'' petstore) = Inl TypeError
   \<and> getTagsWithOperations (carrying ''name'' prototyped) = Inl TypeError
   \<and> getTagsWithOperations (carrying ''operations'' prototyped) = Inl TypeError
   \<and> (\<exists>tagsMap. getTagsWithOperations (carrying ''name'' petstore) = Inr tagsMap
         \<and> object_keys tagsMap = [''pets'', ''paging'', ''store'', [], ''name''])"
  by (simp add: collector_defs example_defs prototyped_defs carrying_def object_keys_def)

text \<open>
  Line 137 on the tag that is the prototype of the map gives the name \<^verbatim>\<open>used\<close> a value
  to read: a group that names \<^verbatim>\<open>used\<close> after \<^verbatim>\<open>__proto__\<close> makes the builder raise,
  one that names it before is warned of a tag that does not exist.
\<close>

lemma prototype_flag_is_read:
  "buildStructureRun noHeadings (groupedAs [''used'', ''__proto__''] prototyped) =
     Inr ([GroupModel Group ''All'' None 0
             [GroupModel Tag ''__proto__'' (Some (Group, ''All'')) 1
                [OperationModel protoList (Some (Tag, ''__proto__'')) 2,
                 OperationModel protoPut (Some (Tag, ''__proto__'')) 2]]],
          prototypedTags\<lparr>prototype := Some (mark protoTag)\<rparr>,
          [nonExistingTag ''used'' ''All''])
   \<and> buildStructure noHeadings (groupedAs [''__proto__'', ''used''] prototyped) = Inl TypeError"
proof -
  have "getTagsWithOperations (groupedAs ns prototyped) = Inr prototypedTags" for ns
    by (simp add: groupedAs_def getTagsWithOperations_groups prototyped_collected)
  then show ?thesis
    unfolding buildStructure_def buildStructureRun_def
    by (simp add: groupedAs_def prototyped_def)
       (simp add: prototyped_defs builder_defs noHeadings_def
          dict_get_def dict_set_def prototypeMember_def objectPrototypeKeys_def)
qed

text \<open>
  A falsy property of the tag that is the prototype reads as a tag that does not exist.
\<close>

lemma falsy_member_is_skipped:
  "getTagsItems noHeadings (prototypedTags\<lparr>prototype := Some (protoTag\<lparr>x_traitTag := Some False\<rparr>)\<rparr>)
     (Some (Group, ''All'')) (Some \<lparr>group_name = ''All'', group_tags = [''x-traitTag'', ''pets'']\<rparr>) [] =
     Inr ([GroupModel Tag ''pets'' (Some (Group, ''All'')) 1
             [OperationModel protoList (Some (Tag, ''pets'')) 2]],
          \<lparr>entries = [(''pets'', mark protoPets)],
           prototype = Some (protoTag\<lparr>x_traitTag := Some False\<rparr>)\<rparr>,
          [nonExistingTag ''x-traitTag'' ''All''])"
  by (simp add: prototyped_defs builder_defs noHeadings_def
      dict_get_def dict_set_def prototypeMember_def objectPrototypeKeys_def)


section \<open>When the collector returns\<close>

lemma dict_get_raises:
  assumes "dict_get m k = Inherited \<or> dict_get m k = InheritedFalsy"
  shows "k \<in> set objectPrototypeKeys
    \<or> k \<in> set [''name'', ''operations'', ''description'', ''x-traitTag'', ''used'']"
  using assms
  by (auto simp: dict_get_def prototypeMember_def split: option.splits if_splits)

lemma addToTag_total:
  assumes "tagName \<notin> set objectPrototypeKeys"
    and "tagName \<notin> set [''name'', ''operations'', ''description'', ''x-traitTag'', ''used'']"
  shows "\<exists>tags'. addToTag operation tagName tags0 = Inr tags'"
  using assms dict_get_raises [of tags0 tagName]
  by (cases "dict_get tags0 tagName") (auto simp: addToTag_def)

text \<open>
  The collector returns a tag map whenever no operation carries a tag named like a
  member of \<^verbatim>\<open>Object.prototype\<close> or like a property of a tag.
\<close>

lemma getTagsWithOperations_total:
  assumes "\<And>pathName' path operationName operationInfo tagName.
           (pathName', path) \<in> set (paths spec) \<Longrightarrow>
           (operationName, operationInfo) \<in> set (members path) \<Longrightarrow>
           isOperationName operationName \<Longrightarrow>
           tagName \<in> set (operationTags operationInfo) \<Longrightarrow>
           tagName \<notin> set objectPrototypeKeys
           \<and> tagName \<notin> set [''name'', ''operations'', ''description'', ''x-traitTag'', ''used'']"
  shows "\<exists>tagsMap. getTagsWithOperations spec = Inr tagsMap"
proof -
  have "\<exists>tagsMap. for_each
            (\<lambda>(pathName', path).
               for_each
                 (\<lambda>(operationName, operationInfo).
                    for_each
                      (addToTag (extendOperation pathName' path operationName operationInfo))
                      (operationTags operationInfo))
                 (filter (\<lambda>(key, _). isOperationName key) (members path)))
            (paths spec) (seedTags (declaredTags spec) emptyTags) = Inr tagsMap \<and> True"
  proof (rule for_each_total [where P = "\<lambda>_. True"], goal_cases)
    case 1
    show ?case by simp
  next
    case (2 x s)
    obtain pathName' path where x: "x = (pathName', path)" by (cases x)
    have "\<exists>s'. for_each
                 (\<lambda>(operationName, operationInfo).
                    for_each
                      (addToTag (extendOperation pathName' path operationName operationInfo))
                      (operationTags operationInfo))
                 (filter (\<lambda>(key, _). isOperationName key) (members path)) s = Inr s' \<and> True"
    proof (rule for_each_total [where P = "\<lambda>_. True"], goal_cases)
      case 1
      show ?case by simp
    next
      case (2 y t)
      obtain operationName operationInfo where y: "y = (operationName, operationInfo)" by (cases y)
      from 2(1) have member: "(operationName, operationInfo) \<in> set (members path)"
        "isOperationName operationName"
        by (auto simp: y)
      have "\<exists>s'. for_each
                      (addToTag (extendOperation pathName' path operationName operationInfo))
                      (operationTags operationInfo) t = Inr s' \<and> True"
      proof (rule for_each_total [where P = "\<lambda>_. True"], goal_cases)
        case 1
        show ?case by simp
      next
        case (2 tagName u)
        have "tagName \<notin> set objectPrototypeKeys
          \<and> tagName \<notin> set [''name'', ''operations'', ''description'', ''x-traitTag'', ''used'']"
          using assms [OF _ member 2(1)] \<open>x \<in> set (paths spec)\<close> by (simp add: x)
        then show ?case using addToTag_total by blast
      qed
      then show ?case by (simp add: y)
    qed
    then show ?case by (simp add: x)
  qed
  then show ?thesis
    by (simp add: getTagsWithOperations_def)
qed

section \<open>Trait tags\<close>

text \<open>
  Claim C7. A tag that is flagged as a trait tag never has an operation appended to its
  operations, however many operations declare the tag: whenever the collector returns,
  the operations of every trait tag that a name reads in the map are empty, whether the
  tag is an entry of the map or, declared under the name \<^verbatim>\<open>__proto__\<close>, its prototype;
  and a name whose last declaration is flagged reads such a tag.
\<close>

theorem trait_tag_collects_nothing:
  assumes "getTagsWithOperations spec = Inr tagsMap"
  shows "((dict_get tagsMap n = Own tag \<or> dict_get tagsMap n = Prototype tag) \<and> isTrait tag \<longrightarrow>
            operations tag = [])
    \<and> (declaredAs n (declaredTags spec) = Some d \<and> x_traitTag d = Some True \<longrightarrow>
          (\<exists>tag'. dict_get tagsMap n = (if n = ''__proto__'' then Prototype tag' else Own tag')
             \<and> isTrait tag' \<and> operations tag' = []))"
proof -
  have first: "operations tag = []"
    if "dict_get tagsMap n = Own tag \<or> dict_get tagsMap n = Prototype tag" "isTrait tag"
    for tag
  proof -
    from that(1) have "tagOf (dict_get tagsMap n) = Some tag" by (auto simp: tagOf_def)
    from collected_tag(3) [OF assms this] that(2) show ?thesis by simp
  qed
  have second: "\<exists>tag'. dict_get tagsMap n = (if n = ''__proto__'' then Prototype tag' else Own tag')
             \<and> isTrait tag' \<and> operations tag' = []"
    if d: "declaredAs n (declaredTags spec) = Some d" "x_traitTag d = Some True"
  proof -
    from declared_tag_collected [OF assms declaredAs_Some(1) [OF d(1)]] declaredAs_Some(2) [OF d(1)]
    obtain tag' where
      entry: "dict_get tagsMap n = (if n = ''__proto__'' then Prototype tag' else Own tag')"
      by auto
    then have read: "tagOf (dict_get tagsMap n) = Some tag'" by (simp add: tagOf_def)
    from collected_tag(5) [OF assms read] d have "isTrait tag'" by (simp add: isTrait_def)
    with collected_tag(3) [OF assms read] entry show ?thesis by auto
  qed
  from first second show ?thesis by blast
qed

text \<open>In \<open>petstore\<close> the operation \<^verbatim>\<open>get /pets\<close> declares the trait tag \<^verbatim>\<open>paging\<close>.\<close>

theorem trait_tag_collects_nothing_witness:
  "getTagsWithOperations petstore = Inr petstoreTags
   \<and> dict_get petstoreTags ''paging'' = Own pagingTag
   \<and> isTrait pagingTag
   \<and> [''pets'', ''paging''] = operationTags (tagged [''pets'', ''paging''] ''listPets'')
   \<and> operations pagingTag = []
   \<and> declaredAs ''paging'' (declaredTags petstore) =
       Some \<lparr>name = ''paging'', description = None, x_traitTag = Some True\<rparr>"
proof -
  have entry: "dict_get petstoreTags ''paging'' = Own pagingTag"
    by (simp add: petstoreTags_def dict_get_def)
  have trait: "isTrait pagingTag"
    by (simp add: pagingTag_def isTrait_def)
  have carried: "[''pets'', ''paging''] = operationTags (tagged [''pets'', ''paging''] ''listPets'')"
    by (simp add: operationTags_def tagged_def)
  have declared: "declaredAs ''paging'' (declaredTags petstore) =
       Some \<lparr>name = ''paging'', description = None, x_traitTag = Some True\<rparr>"
    by (simp add: declaredAs_def declaredTags_def petstore_def storeDeclared_def)
  from trait_tag_collects_nothing [OF petstore_collected, of "''paging''" pagingTag
      "\<lparr>name = ''paging'', description = None, x_traitTag = Some True\<rparr>"]
    entry trait carried declared petstore_collected
  show ?thesis by simp
qed

section \<open>The order of the operations of a tag\<close>

text \<open>
  Claim C3, as amended. The operations of a tag that is no trait tag are the operations
  carrying the tag in discovery order, where the paths are taken in the order of the
  path map and, within a path item, the operation names in the order of the keys of
  the path item (not in a fixed order of the verbs). This holds of every tag that a
  name reads in the collected map: an entry of the map or, for a tag declared under the
  name \<^verbatim>\<open>__proto__\<close>, its prototype.
\<close>

theorem operations_in_discovery_order:
  assumes "getTagsWithOperations spec = Inr tagsMap"
    and "dict_get tagsMap n = Own tag \<or> dict_get tagsMap n = Prototype tag"
    and "\<not> isTrait tag"
  shows "operations tag = operationsUnder n (paths spec)"
proof -
  from assms(2) have "tagOf (dict_get tagsMap n) = Some tag" by (auto simp: tagOf_def)
  from collected_tag(3) [OF assms(1) this] assms(3) show ?thesis by simp
qed

theorem operations_in_discovery_order_witness:
  "getTagsWithOperations petstore = Inr petstoreTags
   \<and> dict_get petstoreTags ''pets'' = Own petsTag
   \<and> \<not> isTrait petsTag
   \<and> operations petsTag = [addPet, listPets]
   \<and> operationsUnder ''pets'' (paths petstore) = [addPet, listPets]
   \<and> getTagsWithOperations prototyped = Inr prototypedTags
   \<and> dict_get prototypedTags ''__proto__'' = Prototype protoTag
   \<and> \<not> isTrait protoTag
   \<and> operations protoTag = [protoList, protoPut]
   \<and> operationsUnder ''__proto__'' (paths prototyped) = [protoList, protoPut]"
proof -
  have entry: "dict_get petstoreTags ''pets'' = Own petsTag"
    by (simp add: petstoreTags_def dict_get_def)
  have plain: "\<not> isTrait petsTag" "operations petsTag = [addPet, listPets]"
    by (simp_all add: petsTag_def isTrait_def)
  have entry': "dict_get prototypedTags ''__proto__'' = Prototype protoTag"
    by (simp add: prototypedTags_def dict_get_def)
  have plain': "\<not> isTrait protoTag" "operations protoTag = [protoList, protoPut]"
    by (simp_all add: protoTag_def isTrait_def)
  from operations_in_discovery_order [OF petstore_collected, of "''pets''" petsTag]
    operations_in_discovery_order [OF prototyped_collected, of "''__proto__''" protoTag]
    entry plain entry' plain' petstore_collected prototyped_collected
  show ?thesis by simp
qed

text \<open>
  Claim C3 as stated fails: the path item \<^verbatim>\<open>/pets\<close> of \<open>petstore\<close> lists \<^verbatim>\<open>post\<close> before
  \<^verbatim>\<open>get\<close>, and so do the operations of the tag \<^verbatim>\<open>pets\<close>, while the fixed order of the
  verbs puts \<^verbatim>\<open>get\<close> first.
\<close>

theorem fixed_verb_order_counterexample:
  "getTagsWithOperations petstore = Inr petstoreTags
   \<and> dict_get petstoreTags ''pets'' =
       Own \<lparr>name = ''pets'', description = None, x_traitTag = None,
            operations = [addPet, listPets], used = None\<rparr>
   \<and> map (\<lambda>operation. (pathName operation, httpVerb operation)) [addPet, listPets] =
       [(''/pets'', ''post''), (''/pets'', ''get'')]
   \<and> fixedVerbOrder ''pets'' (paths petstore) = [(''/pets'', ''get''), (''/pets'', ''post'')]"
  by (simp add: petstore_collected)
     (simp add: example_defs dict_get_def fixedVerbOrder_def operationNames_def
        operationTags_def extendOperation_def)

section \<open>Depths\<close>

text \<open>
  Claim C1, as amended. Every Group of a tag has depth \<^verbatim>\<open>GROUP_DEPTH + 1\<close>, that is 1,
  whether it stands at the top level with no parent or inside the Group of a group
  definition, which has depth \<^verbatim>\<open>GROUP_DEPTH\<close>, that is 0; so it is one level deeper than
  its parent when it has one, and at depth 1, not 0, when it has none.
\<close>

theorem tag_group_depth:
  assumes "buildStructure eh spec = Inr items" and "x \<in> set (allNodes items)"
  shows "(isGroupOf Tag x \<longrightarrow>
            depthOf x = GROUP_DEPTH + 1
            \<and> (parentOf x = None \<or> (\<exists>g. parentOf x = Some (Group, g))))
    \<and> (isGroupOf Group x \<longrightarrow>
            depthOf x = GROUP_DEPTH \<and> parentOf x = None
            \<and> (\<forall>c \<in> set (itemsOf x). isGroupOf Tag c \<longrightarrow>
                  depthOf c = depthOf x + 1 \<and> parentOf c = Some (Group, titleOf x)))"
proof -
  from buildStructure_nodes [OF assms] consider
    (narrative) "isGroupOf Section x"
    | (operation) e p where "x = OperationModel e p (GROUP_DEPTH + 2)"
    | (tag) tag parent where "parent = None \<or> (\<exists>g. parent = Some (Group, g))"
        "x = tagGroup eh parent tag"
    | (grp) title its where "x = GroupModel Group title None GROUP_DEPTH its"
        "\<forall>c \<in> set its. \<exists>tag. c \<in> set (tagItems eh (Some (Group, title)) tag)"
    by blast
  then show ?thesis
  proof cases
    case narrative
    then show ?thesis by (cases x) auto
  next
    case operation
    then show ?thesis by simp
  next
    case tag
    then show ?thesis by (auto simp: tagGroup_def)
  next
    case grp
    have "depthOf c = GROUP_DEPTH + 1 \<and> parentOf c = Some (Group, title)"
      if "c \<in> set its" "isGroupOf Tag c" for c
    proof -
      from grp(2) that(1) obtain tag where "c \<in> set (tagItems eh (Some (Group, title)) tag)"
        by blast
      from tagItems_top [OF this] that(2) show ?thesis
        by (cases c) (auto simp: tagGroup_def)
    qed
    with grp(1) show ?thesis by simp
  qed
qed

text \<open>
  In \<open>grouped\<close> the Group of the tag \<^verbatim>\<open>pets\<close> stands inside the Group \<^verbatim>\<open>General\<close>.
\<close>

theorem tag_group_depth_witness:
  "buildStructure noHeadings grouped = Inr groupedItems
   \<and> petsInGeneral \<in> set (allNodes groupedItems)
   \<and> isGroupOf Tag petsInGeneral
   \<and> depthOf petsInGeneral = GROUP_DEPTH + 1
   \<and> parentOf petsInGeneral = Some (Group, ''General'')
   \<and> general \<in> set (allNodes groupedItems)
   \<and> isGroupOf Group general
   \<and> depthOf general = GROUP_DEPTH"
proof -
  have tag: "petsInGeneral \<in> set (allNodes groupedItems)"
    by (simp add: allNodes_def groupedItems_def general_def petsInGeneral_def)
  have grp: "general \<in> set (allNodes groupedItems)"
    by (simp add: allNodes_def groupedItems_def general_def)
  from tag_group_depth [OF grouped_built tag] tag_group_depth [OF grouped_built grp]
    grouped_built tag grp
  show ?thesis
    by (simp add: general_def petsInGeneral_def)
qed

text \<open>
  Claim C1 as stated fails: in \<open>petstore\<close>, which has no tag groups, the Group of the tag
  \<^verbatim>\<open>pets\<close> is at the top level, has no parent, and has depth 1, not 0.
\<close>

theorem top_level_tag_group_counterexample:
  "buildStructure noHeadings petstore = Inr petstoreItems
   \<and> hd petstoreItems = petsAtTop
   \<and> isGroupOf Tag petsAtTop
   \<and> parentOf petsAtTop = None
   \<and> depthOf petsAtTop \<noteq> 0"
  by (simp add: petstore_built petstoreItems_def petsAtTop_def)

lemma allTagsItems_top:
  assumes "c \<in> set (allTagsItems eh tagsMap)"
  shows "\<exists>tag. c \<in> set (tagItems eh None tag)"
  using assms by (auto simp: allTagsItems_def)

lemma top_level_operation:
  assumes "buildStructure eh spec = Inr items" and "x \<in> set items" and "isOperation x"
  shows "parentOf x = None"
proof -
  from assms(1) obtain tagsMap where collected: "getTagsWithOperations spec = Inr tagsMap"
    using buildStructure_collected by blast
  note items = buildStructure_cases [OF assms(1) collected]
  let ?groups = "\<lambda>gs. map (\<lambda>g. GroupModel Group (group_name g) None GROUP_DEPTH
                                        (groupItems eh g tagsMap)) gs"
  from assms(2) items consider
    (narrative) "x \<in> set (addMarkdownItems eh (orEmpty (info_description spec)) None)"
    | (fromTags) "x \<in> set (allTagsItems eh tagsMap)"
    | (fromGroups) gs where "x \<in> set (?groups gs)"
    by (auto split: option.splits if_splits)
  then show ?thesis
  proof cases
    case narrative
    then have "x \<in> set (allNodes (addMarkdownItems eh (orEmpty (info_description spec)) None))"
      using top_level_nodes by blast
    then have "isGroupOf Section x" by (rule addMarkdownItems_nodes)
    with assms(3) show ?thesis by (cases x) auto
  next
    case fromTags
    then obtain tag where "x \<in> set (tagItems eh None tag)"
      using allTagsItems_top by blast
    from tagItems_top [OF this] assms(3) show ?thesis
      by (cases x) (auto simp: tagGroup_def)
  next
    case fromGroups
    with assms(3) show ?thesis by auto
  qed
qed

text \<open>
  Claim C2, as amended. Every Operation has depth \<^verbatim>\<open>GROUP_DEPTH + 2\<close>. Under the Group of
  a named tag that is the depth of the Group plus 1, and the Operation refers to the
  Group as its parent; no Group of a tag has the empty name. An Operation of the
  anonymous tag stands directly among the children of the would-be parent of the tag,
  has no parent and keeps the depth 2: one more than the tag Groups beside it, and the
  depth of the Group of a group definition plus 2.
\<close>

theorem operation_depth:
  assumes "buildStructure eh spec = Inr items" and "x \<in> set (allNodes items)"
  shows "(isOperation x \<longrightarrow> depthOf x = GROUP_DEPTH + 2)
    \<and> (isGroupOf Tag x \<longrightarrow>
          titleOf x \<noteq> []
          \<and> (\<forall>c \<in> set (itemsOf x). isOperation c \<longrightarrow>
                depthOf c = depthOf x + 1 \<and> parentOf c = Some (Tag, titleOf x)))
    \<and> (isGroupOf Group x \<longrightarrow>
          (\<forall>c \<in> set (itemsOf x). isOperation c \<longrightarrow>
                depthOf c = depthOf x + 2 \<and> parentOf c = None))
    \<and> (x \<in> set items \<and> isOperation x \<longrightarrow> parentOf x = None)"
proof -
  have top: "x \<in> set items \<and> isOperation x \<longrightarrow> parentOf x = None"
    using top_level_operation [OF assms(1)] by blast
  from buildStructure_nodes [OF assms] consider
    (narrative) "isGroupOf Section x"
    | (operation) e p where "x = OperationModel e p (GROUP_DEPTH + 2)"
    | (tag) tag parent where "name tag \<noteq> []" "x = tagGroup eh parent tag"
    | (grp) title its where "x = GroupModel Group title None GROUP_DEPTH its"
        "\<forall>c \<in> set its. \<exists>tag. c \<in> set (tagItems eh (Some (Group, title)) tag)"
    by blast
  then show ?thesis
  proof cases
    case narrative
    then show ?thesis by (cases x) auto
  next
    case operation
    with top show ?thesis by simp
  next
    case tag
    have "depthOf c = depthOf x + 1 \<and> parentOf c = Some (Tag, titleOf x)"
      if "c \<in> set (itemsOf x)" "isOperation c" for c
    proof -
      from that(1) have "c \<in> set (itemsOf (tagGroup eh parent tag))" by (simp add: tag(2))
      from tagGroup_children [OF this] that(2) show ?thesis
        by (cases c) (auto simp: tag(2) tagGroup_def)
    qed
    with tag show ?thesis by (auto simp: tagGroup_def)
  next
    case grp
    have "depthOf c = GROUP_DEPTH + 2 \<and> parentOf c = None"
      if "c \<in> set its" "isOperation c" for c
    proof -
      from grp(2) that(1) obtain tag where "c \<in> set (tagItems eh (Some (Group, title)) tag)"
        by blast
      from tagItems_top [OF this] that(2) show ?thesis
        by (cases c) (auto simp: tagGroup_def)
    qed
    with grp(1) show ?thesis by simp
  qed
qed

theorem operation_depth_witness:
  "buildStructure noHeadings grouped = Inr groupedItems
   \<and> petsInGeneral \<in> set (allNodes groupedItems)
   \<and> isGroupOf Tag petsInGeneral
   \<and> itemsOf petsInGeneral =
       [OperationModel addPet (Some (Tag, ''pets'')) 2,
        OperationModel listPets (Some (Tag, ''pets'')) 2]
   \<and> depthOf petsInGeneral + 1 = 2
   \<and> OperationModel health None 2 \<in> set (allNodes groupedItems)
   \<and> isOperation (OperationModel health None 2)
   \<and> depthOf (OperationModel health None 2) = GROUP_DEPTH + 2"
proof -
  have tag: "petsInGeneral \<in> set (allNodes groupedItems)"
    by (simp add: allNodes_def groupedItems_def general_def petsInGeneral_def)
  have operation: "OperationModel health None 2 \<in> set (allNodes groupedItems)"
    by (simp add: allNodes_def groupedItems_def general_def)
  from operation_depth [OF grouped_built tag] operation_depth [OF grouped_built operation]
    grouped_built tag operation
  show ?thesis
    by (simp add: petsInGeneral_def)
qed

text \<open>
  Claim C2 as stated fails: in \<open>grouped\<close> the operation \<^verbatim>\<open>get /health\<close> has no tags and
  stands among the children of the Group \<^verbatim>\<open>General\<close>, of depth 0, beside a tag Group of
  depth 1; its depth is 2, not the depth 1 of the children of \<^verbatim>\<open>General\<close>.
\<close>

theorem hoisted_operation_depth_counterexample:
  "buildStructure noHeadings grouped = Inr [general]
   \<and> operationTags (untagged ''health'') = [[]]
   \<and> itemsOf general = [OperationModel health None 2, petsInGeneral]
   \<and> depthOf general = 0
   \<and> depthOf petsInGeneral = 1
   \<and> depthOf (OperationModel health None 2) \<noteq> depthOf general + 1"
  by (simp add: grouped_built groupedItems_def)
     (simp add: general_def petsInGeneral_def operationTags_def untagged_def)

text \<open>
  Claim C4, as amended. Expanding the anonymous tag creates no tag Group: the sections
  of the description of the tag, followed by its Operations, take its place among the
  items of the loop. The Operations have the depth the tag Group would have had plus 1;
  the sections start at the depth the tag Group would have had (1), not one deeper, and
  their sub-sections are one level deeper at every level.
\<close>

theorem anonymous_tag_spliced:
  assumes "name tag = []"
  shows "tagItems eh parent tag =
           addMarkdownItems eh (orEmpty (description tag)) (Some (Tag, []))
           @ map (\<lambda>operation. OperationModel operation None (depthOf (tagGroup eh parent tag) + 1))
               (operations tag)
    \<and> list_all (sectionsFrom (depthOf (tagGroup eh parent tag)))
        (addMarkdownItems eh (orEmpty (description tag)) (Some (Tag, [])))
    \<and> depthOf (tagGroup eh parent tag) = GROUP_DEPTH + 1
    \<and> (tagsLoop eh parent before = Inr b \<and> tagsLoop eh parent after = Inr a \<longrightarrow>
          tagsLoop eh parent (before @ Own tag # after) = Inr (b @ tagItems eh parent tag @ a))"
  using assms mapHeadingsDeep_sectionsFrom [of 1]
  by (auto simp: tagItems_def tagGroup_def getOperationsItems_map addMarkdownItems_def
      GROUP_DEPTH_def tagsLoop_append)

text \<open>The anonymous tag of \<open>anonymousIntro\<close>, whose description has one heading.\<close>

theorem anonymous_tag_spliced_witness:
  "name anonymousTag = []
   \<and> tagItems introHeadings None anonymousTag =
       [GroupModel Section ''Intro'' (Some (Tag, [])) 1 [], OperationModel health None 2]
   \<and> depthOf (tagGroup introHeadings None anonymousTag) = 1
   \<and> tagsLoop introHeadings None [] = Inr []
   \<and> tagsLoop introHeadings None ([] @ Own anonymousTag # []) = Inr anonymousIntroItems"
proof -
  have anonymous: "name anonymousTag = []"
    by (simp add: anonymousTag_def)
  from anonymous_tag_spliced [OF anonymous, of introHeadings None "[]" "[]" "[]" "[]"] anonymous
  show ?thesis
    by (simp add: anonymousTag_def anonymousIntroItems_def addMarkdownItems_def orEmpty_def
        introHeadings_def tagGroup_def GROUP_DEPTH_def)
qed

text \<open>
  Claim C4 as stated fails: for \<open>anonymousIntro\<close> the tag Group would have had depth 1,
  and the section of the description of the anonymous tag has depth 1, not 2.
\<close>

theorem anonymous_section_depth_counterexample:
  "buildStructure introHeadings anonymousIntro =
     Inr [GroupModel Section ''Intro'' (Some (Tag, [])) 1 [], OperationModel health None 2]
   \<and> depthOf (tagGroup introHeadings None anonymousTag) = 1
   \<and> depthOf (GroupModel Section ''Intro'' (Some (Tag, [])) 1 []) \<noteq>
       depthOf (tagGroup introHeadings None anonymousTag) + 1"
  by (simp add: anonymousIntro_built anonymousIntroItems_def tagGroup_def GROUP_DEPTH_def)


section \<open>The top level\<close>

lemma tagItems_no_group:
  assumes "c \<in> set (tagItems eh parent tag)"
  shows "\<not> isGroupOf Group c"
  using tagItems_top [OF assms] by (cases c) (auto simp: tagGroup_def)

text \<open>
  Claim C5, as amended. The top level is the sections of the description of the API,
  followed by exactly one of: one Group per group definition, in the order of the
  definitions (when \<^verbatim>\<open>x-tagGroups\<close> is given and not empty), or else the items of every
  entry of the collected map, in the order of the map, which are the Group of the tag
  for a named tag and, for the anonymous tag, the sections of its description and its
  Operations in its place. No Group of a group definition stands among the items of the
  tags. The children of the Group of a group definition are the items of the tags that
  its names read in the collected map.
\<close>

theorem top_level_sequence:
  assumes "getTagsWithOperations spec = Inr tagsMap" and "buildStructure eh spec = Inr items"
  shows "items = addMarkdownItems eh (orEmpty (info_description spec)) None
                 @ (case x_tagGroups spec of
                      None \<Rightarrow> allTagsItems eh tagsMap
                    | Some gs \<Rightarrow>
                        if gs = [] then allTagsItems eh tagsMap
                        else map (\<lambda>g. GroupModel Group (group_name g) None GROUP_DEPTH
                                        (groupItems eh g tagsMap)) gs)
    \<and> list_all (isGroupOf Section) (addMarkdownItems eh (orEmpty (info_description spec)) None)
    \<and> list_all (\<lambda>c. \<not> isGroupOf Group c) (allTagsItems eh tagsMap)"
proof -
  have "isGroupOf Section c"
    if "c \<in> set (addMarkdownItems eh (orEmpty (info_description spec)) None)" for c
    using that top_level_nodes addMarkdownItems_nodes by blast
  moreover have "\<not> isGroupOf Group c" if "c \<in> set (allTagsItems eh tagsMap)" for c
    using allTagsItems_top [OF that] tagItems_no_group by blast
  ultimately show ?thesis
    using buildStructure_cases [OF assms(2,1)] by (simp add: list_all_iff)
qed

text \<open>
  \<open>petstore\<close> has no tag groups; \<open>grouped\<close> has one, and so has \<open>groupedPrototype\<close>, whose
  group names the tag declared as \<^verbatim>\<open>__proto__\<close>.
\<close>

theorem top_level_sequence_witness:
  "getTagsWithOperations petstore = Inr petstoreTags
   \<and> buildStructure noHeadings petstore = Inr petstoreItems
   \<and> x_tagGroups petstore = None
   \<and> addMarkdownItems noHeadings (orEmpty (info_description petstore)) None = []
   \<and> petstoreItems = allTagsItems noHeadings petstoreTags
   \<and> getTagsWithOperations grouped = Inr petstoreTags
   \<and> buildStructure noHeadings grouped = Inr groupedItems
   \<and> groupedItems =
       [GroupModel Group ''General'' None GROUP_DEPTH
          (groupItems noHeadings \<lparr>group_name = ''General'', group_tags = [[], ''owners'', ''pets'']\<rparr>
             petstoreTags)]
   \<and> getTagsWithOperations groupedPrototype = Inr prototypedTags
   \<and> buildStructure noHeadings groupedPrototype = Inr groupedPrototypeItems
   \<and> groupedPrototypeItems =
       [GroupModel Group ''All'' None GROUP_DEPTH
          (groupItems noHeadings \<lparr>group_name = ''All'', group_tags = [''__proto__'', ''pets'']\<rparr>
             prototypedTags)]"
proof -
  have none: "x_tagGroups petstore = None"
    and narrative: "addMarkdownItems noHeadings (orEmpty (info_description petstore)) None = []"
    and groups: "x_tagGroups grouped =
           Some [\<lparr>group_name = ''General'', group_tags = [[], ''owners'', ''pets'']\<rparr>]"
    and narrative': "addMarkdownItems noHeadings (orEmpty (info_description grouped)) None = []"
    and groups'': "x_tagGroups groupedPrototype =
           Some [\<lparr>group_name = ''All'', group_tags = [''__proto__'', ''pets'']\<rparr>]"
    and narrative'': "addMarkdownItems noHeadings (orEmpty (info_description groupedPrototype)) None = []"
    by (simp_all add: petstore_def grouped_def groupedPrototype_def prototyped_def
        addMarkdownItems_def noHeadings_def)
  from top_level_sequence [OF petstore_collected petstore_built]
    top_level_sequence [OF grouped_collected grouped_built]
    top_level_sequence [OF groupedPrototype_collected groupedPrototype_built]
    petstore_collected petstore_built grouped_collected grouped_built
    groupedPrototype_collected groupedPrototype_built
  show ?thesis
    by (simp add: none narrative groups narrative' groups'' narrative'')
qed

text \<open>
  Claim C5 as stated fails: the top level of \<open>petstore\<close>, which has no tag groups, ends
  with the Operation \<^verbatim>\<open>get /health\<close>, which is no Group of any kind.
\<close>

theorem top_level_operation_counterexample:
  "buildStructure noHeadings petstore = Inr petstoreItems
   \<and> x_tagGroups petstore = None
   \<and> last petstoreItems = OperationModel health None 2
   \<and> \<not> isGroupOf Section (last petstoreItems)
   \<and> \<not> isGroupOf Group (last petstoreItems)
   \<and> \<not> isGroupOf Tag (last petstoreItems)"
  by (simp add: petstore_built petstoreItems_def) (simp add: petstore_def)

section \<open>Tags without operations\<close>

lemma allTagsItems_entry:
  assumes "(k, tag) \<in> set (entries tagsMap)"
  shows "set (tagItems eh None tag) \<subseteq> set (allTagsItems eh tagsMap)"
  using assms by (auto simp: allTagsItems_def)

lemma groupItems_entry:
  assumes "k \<in> set (group_tags g)" and "tagOf (dict_get tagsMap k) = Some tag"
  shows "set (tagItems eh (Some (Group, group_name g)) tag) \<subseteq> set (groupItems eh g tagsMap)"
proof
  fix c
  assume "c \<in> set (tagItems eh (Some (Group, group_name g)) tag)"
  with assms(2) have "c \<in> set (itemsAt eh (Some (Group, group_name g)) tagsMap k)"
    by (simp add: itemsAt_def)
  with assms(1) show "c \<in> set (groupItems eh g tagsMap)"
    unfolding groupItems_def by auto
qed

text \<open>
  Claim C9, as amended. Take a tag declared under a name other than the empty name and
  \<^verbatim>\<open>__proto__\<close>, whose declaration (the last one of that name) has no description, and
  which gets no operation: no operation carries the name, or the declaration is flagged
  as a trait tag. With an extractor that finds no heading in the empty text, the
  collected map has the tag as an entry with no operations, and the tag expands to a tag
  Group with no children wherever it is expanded: among the top-level items when there
  are no tag groups, and among the children of the Group of every group definition that
  names it. When there are tag groups and none names the tag, the tree has no Group of
  the tag. Expanding the operations of a tag whose operations are empty returns the
  empty list; the function raises nothing.
\<close>

theorem empty_tag_keeps_group:
  assumes "getTagsWithOperations spec = Inr tagsMap"
    and "declaredAs n (declaredTags spec) = Some d"
    and "n \<noteq> []" and "n \<noteq> ''__proto__''"
    and "operationsUnder n (paths spec) = [] \<or> x_traitTag d = Some True"
    and "orEmpty (description d) = []" and "eh [] = []"
  shows "\<exists>tag. dict_get tagsMap n = Own tag \<and> name tag = n \<and> operations tag = []
    \<and> ((x_tagGroups spec = None \<or> x_tagGroups spec = Some []) \<longrightarrow>
          (\<exists>items. buildStructure eh spec = Inr items
             \<and> GroupModel Tag n None (GROUP_DEPTH + 1) [] \<in> set items))
    \<and> (\<forall>gs items. x_tagGroups spec = Some gs \<and> gs \<noteq> [] \<and> buildStructure eh spec = Inr items \<longrightarrow>
          (\<forall>g \<in> set gs. n \<in> set (group_tags g) \<longrightarrow>
              GroupModel Group (group_name g) None GROUP_DEPTH (groupItems eh g tagsMap) \<in> set items
              \<and> GroupModel Tag n (Some (Group, group_name g)) (GROUP_DEPTH + 1) []
                   \<in> set (groupItems eh g tagsMap))
          \<and> ((\<forall>g \<in> set gs. n \<notin> set (group_tags g)) \<longrightarrow>
                (\<forall>x \<in> set (allNodes items). \<not> isTagGroupOf n x)))
    \<and> (\<forall>parent' tag' depth. operations tag' = [] \<longrightarrow> getOperationsItems parent' tag' depth = [])"
proof -
  from declared_tag_collected [OF assms(1) declaredAs_Some(1) [OF assms(2)]]
    declaredAs_Some(2) [OF assms(2)] assms(4)
  obtain tag where entry: "dict_get tagsMap n = Own tag" by auto
  then have read: "tagOf (dict_get tagsMap n) = Some tag" by (simp add: tagOf_def)
  note tag = collected_tag [OF assms(1) read]
  from tag(5) assms(2) have "x_traitTag d = Some True \<Longrightarrow> isTrait tag"
    by (simp add: isTrait_def)
  with tag(3) assms(5) have empty: "operations tag = []" by auto
  from tag(4) assms(2,6) have plain: "orEmpty (description tag) = []" by simp
  have expand: "tagItems eh p tag = [GroupModel Tag n p (GROUP_DEPTH + 1) []]" for p
    using assms(3,7) tag(1) empty plain
    by (simp add: tagItems_def tagGroup_def getOperationsItems_def addMarkdownItems_def)
  have ungrouped: "\<exists>items. buildStructure eh spec = Inr items
             \<and> GroupModel Tag n None (GROUP_DEPTH + 1) [] \<in> set items"
    if "x_tagGroups spec = None \<or> x_tagGroups spec = Some []"
    using buildStructure_ungrouped [OF assms(1) that, of eh]
      allTagsItems_entry [OF dict_get_Own_mem [OF entry], of eh]
    by (auto simp: expand)
  have named: "GroupModel Group (group_name g) None GROUP_DEPTH (groupItems eh g tagsMap) \<in> set items
          \<and> GroupModel Tag n (Some (Group, group_name g)) (GROUP_DEPTH + 1) []
               \<in> set (groupItems eh g tagsMap)"
    if "x_tagGroups spec = Some gs" "gs \<noteq> []" "buildStructure eh spec = Inr items"
      "g \<in> set gs" "n \<in> set (group_tags g)"
    for gs items g
    using buildStructure_grouped [OF assms(1) that(1-3)] that(4)
      groupItems_entry [OF that(5) read, of eh]
    by (auto simp: expand)
  have unnamed: "\<not> isTagGroupOf n x"
    if "x_tagGroups spec = Some gs" "gs \<noteq> []" "buildStructure eh spec = Inr items"
      "\<forall>g \<in> set gs. n \<notin> set (group_tags g)" "x \<in> set (allNodes items)"
    for gs items x
  proof
    assume "isTagGroupOf n x"
    then have x: "isGroupOf Tag x" "titleOf x = n" by (simp_all add: isTagGroupOf_def)
    from tag_group_origin [OF that(3) assms(1) that(5) x(1)] that(1,2,4) x(2)
    show False by auto
  qed
  have "getOperationsItems parent' tag' depth = []" if "operations tag' = []"
    for parent' tag' depth
    using that by (simp add: getOperationsItems_def)
  with entry tag(1) empty ungrouped named unnamed show ?thesis by blast
qed

text \<open>
  The tag \<^verbatim>\<open>store\<close> of \<open>petstore\<close> is declared and no operation carries it: it stands at
  the top level of \<open>petstore\<close>, and in the Group \<^verbatim>\<open>Shop\<close> of \<open>shopped\<close>.
\<close>

theorem empty_tag_keeps_group_witness:
  "getTagsWithOperations petstore = Inr petstoreTags
   \<and> declaredAs ''store'' (declaredTags petstore) = Some storeDeclared
   \<and> operationsUnder ''store'' (paths petstore) = []
   \<and> orEmpty (description storeDeclared) = []
   \<and> noHeadings [] = []
   \<and> dict_get petstoreTags ''store'' = Own storeTag
   \<and> x_tagGroups petstore = None
   \<and> buildStructure noHeadings petstore = Inr petstoreItems
   \<and> GroupModel Tag ''store'' None 1 [] \<in> set petstoreItems
   \<and> getTagsWithOperations shopped = Inr petstoreTags
   \<and> declaredAs ''store'' (declaredTags shopped) = Some storeDeclared
   \<and> operationsUnder ''store'' (paths shopped) = []
   \<and> x_tagGroups shopped = Some [shop]
   \<and> ''store'' \<in> set (group_tags shop)
   \<and> buildStructure noHeadings shopped = Inr shoppedItems
   \<and> GroupModel Tag ''store'' (Some (Group, ''Shop'')) 1 []
        \<in> set (groupItems noHeadings shop petstoreTags)
   \<and> getOperationsItems (Some (Tag, ''store'')) storeTag 2 = []"
proof -
  have declared: "declaredAs ''store'' (declaredTags petstore) = Some storeDeclared"
    "declaredAs ''store'' (declaredTags shopped) = Some storeDeclared"
    by (simp_all add: declaredAs_def declaredTags_def shopped_def petstore_def storeDeclared_def)
  have carried: "operationsUnder ''store'' (paths petstore) = [] \<or> x_traitTag storeDeclared = Some True"
    "operationsUnder ''store'' (paths shopped) = [] \<or> x_traitTag storeDeclared = Some True"
    by (simp_all add: operationsUnder_def shopped_def petstore_def petsPath_def healthPath_def
        tagged_def untagged_def operationTags_def isOperationName_def operationNames_def)
  have plain: "orEmpty (description storeDeclared) = []" "noHeadings [] = []"
    by (simp_all add: orEmpty_def storeDeclared_def noHeadings_def)
  have names: "''store'' \<noteq> []" "''store'' \<noteq> ''__proto__''"
    by simp_all
  have entry: "dict_get petstoreTags ''store'' = Own storeTag"
    by (simp add: petstoreTags_def dict_get_def)
  have groups: "x_tagGroups petstore = None" "x_tagGroups shopped = Some [shop]"
    "''store'' \<in> set (group_tags shop)"
    by (simp_all add: petstore_def shopped_def shop_def)
  have empty: "operations storeTag = []" "x_traitTag storeDeclared \<noteq> Some True"
    by (simp_all add: storeTag_def storeDeclared_def)
  from empty_tag_keeps_group [where eh = noHeadings,
      OF petstore_collected declared(1) names carried(1) plain]
    empty_tag_keeps_group [where eh = noHeadings,
      OF shopped_collected declared(2) names carried(2) plain]
    declared carried plain entry groups empty
    petstore_collected petstore_built shopped_collected shopped_built
  show ?thesis
    by (auto simp: GROUP_DEPTH_def shop_def)
qed

text \<open>
  Claim C9 as stated fails: \<open>grouped\<close> declares the tag \<^verbatim>\<open>store\<close>, which has no description
  and which no operation carries, and its one group does not name the tag; the tree has
  no Group of the tag.
\<close>

theorem unlisted_tag_is_pruned_counterexample:
  "buildStructure noHeadings grouped = Inr groupedItems
   \<and> getTagsWithOperations grouped = Inr petstoreTags
   \<and> declaredAs ''store'' (declaredTags grouped) = Some storeDeclared
   \<and> description storeDeclared = None
   \<and> dict_get petstoreTags ''store'' = Own storeTag
   \<and> operations storeTag = []
   \<and> filter (isTagGroupOf ''store'') (allNodes groupedItems) = []"
  by (simp add: grouped_built grouped_collected)
     (simp add: declaredAs_def declaredTags_def grouped_def petstore_def storeDeclared_def
        storeTag_def petstoreTags_def dict_get_def allNodes_def groupedItems_def general_def
        petsInGeneral_def isTagGroupOf_def)

section \<open>The flag \<^verbatim>\<open>used\<close>\<close>



section \<open>A group that names a tag the map does not have\<close>

text \<open>
  Claim C6 does not hold of the code for every name. \<open>groupedConstructor\<close> names the tag
  \<^verbatim>\<open>constructor\<close>, which the collected map does not have; line 133 reads the inherited
  \<^verbatim>\<open>Object.prototype.constructor\<close>, so no warning is written and the name is not skipped,
  and the construction of the tree is aborted by the \<^verbatim>\<open>TypeError\<close> of line 182.
\<close>

theorem inherited_tag_name_aborts:
  "getTagsWithOperations groupedConstructor = Inr petstoreTags
   \<and> ''constructor'' \<notin> set (object_keys petstoreTags)
   \<and> x_tagGroups groupedConstructor =
       Some [\<lparr>group_name = ''General'', group_tags = [''constructor'', ''pets'']\<rparr>]
   \<and> buildStructure noHeadings groupedConstructor = Inl TypeError"
proof -
  have "getTagsWithOperations groupedConstructor = Inr petstoreTags"
    by (simp add: groupedConstructor_def getTagsWithOperations_groups petstore_collected)
  moreover have "''constructor'' \<notin> set (object_keys petstoreTags)"
    by (simp add: petstoreTags_def object_keys_def)
  moreover have "x_tagGroups groupedConstructor =
       Some [\<lparr>group_name = ''General'', group_tags = [''constructor'', ''pets'']\<rparr>]"
    by (simp add: groupedConstructor_def)
  ultimately show ?thesis
    using groupedConstructor_aborts by simp
qed

text \<open>
  In a tag map whose prototype is \<^verbatim>\<open>Object.prototype\<close>, a tag name of a group that the
  map does not have, and that names no member of \<^verbatim>\<open>Object.prototype\<close>, is skipped with a
  warning: the group's items are those of the tags the map has, in the order of the
  group, every such tag is marked as used, one warning is written for every name the
  map does not have, and the expansion returns.
\<close>

lemma absent_tag_is_skipped:
  assumes "prototype tagsMap = None"
    and "\<And>k. k \<in> set (group_tags g) \<Longrightarrow> k \<in> set (object_keys tagsMap) \<or> k \<notin> set objectPrototypeKeys"
  shows "\<exists>tagsMap'. getTagsItems eh tagsMap parent (Some g) console =
           Inr (concat (map (itemsAt eh parent tagsMap) (group_tags g)),
                tagsMap',
                console @ map (\<lambda>k. nonExistingTag k (group_name g))
                            (filter (\<lambda>k. dict_get tagsMap k = Undefined) (group_tags g)))
         \<and> marksOnly tagsMap tagsMap'
         \<and> (\<forall>k \<in> set (group_tags g). \<forall>tag.
               dict_get tagsMap k = Own tag \<longrightarrow> dict_get tagsMap' k = Own (mark tag))"
proof -
  have "dict_get tagsMap k \<noteq> Inherited" if "k \<in> set (group_tags g)" for k
    using assms(2) [OF that] assms(1)
    by (auto simp: dict_get_def object_keys_def map_of_eq_None_iff split: option.splits)
  then obtain res tagsMap' console' where
    run: "getTagsItems eh tagsMap parent (Some g) console = Inr (res, tagsMap', console')"
    using getTagsItems_group_total [OF assms(1)] by blast
  have "falsy (dict_get tagsMap k) = (dict_get tagsMap k = Undefined)" for k
    using assms(1) by (auto simp: falsy_def dict_get_def split: option.splits)
  with getTagsItems_group [OF run marksOnly_refl] getTagsItems_marks(1) [OF run] run
  show ?thesis by simp
qed

section \<open>Operations without tags\<close>

lemma operationsUnder_member:
  assumes "(pathName', path) \<in> set ps" and "(operationName, operationInfo) \<in> set (members path)"
    and "isOperationName operationName" and "n \<in> set (operationTags operationInfo)"
  shows "extendOperation pathName' path operationName operationInfo \<in> set (operationsUnder n ps)"
  using assms unfolding operationsUnder_def by fastforce

text \<open>
  Claim C8, as amended. An operation whose tags are missing or empty is filed under the
  anonymous tag, unless that tag is declared as a trait tag, which takes no operation.
  When the anonymous tag is expanded at the top level (no tag groups), the operation is
  a top-level Operation, with no Group around it; when it is expanded for a group
  definition that names it, the operation stands directly among the children of the
  Group of that definition, with no tag Group in between.
\<close>

theorem untagged_operation_is_hoisted:
  assumes "getTagsWithOperations spec = Inr tagsMap"
    and "(pathName', path) \<in> set (paths spec)"
    and "(operationName, operationInfo) \<in> set (members path)"
    and "isOperationName operationName"
    and "tags operationInfo = None \<or> tags operationInfo = Some []"
  shows "\<exists>tag. dict_get tagsMap [] = Own tag \<and> name tag = []
    \<and> (if isTrait tag then operations tag = []
        else extendOperation pathName' path operationName operationInfo \<in> set (operations tag))
    \<and> (\<not> isTrait tag \<and> (x_tagGroups spec = None \<or> x_tagGroups spec = Some []) \<longrightarrow>
          (\<exists>items. buildStructure eh spec = Inr items
             \<and> OperationModel (extendOperation pathName' path operationName operationInfo) None
                  (GROUP_DEPTH + 2) \<in> set items))
    \<and> (\<not> isTrait tag \<longrightarrow>
          (\<forall>gs g items. x_tagGroups spec = Some gs \<and> gs \<noteq> []
               \<and> buildStructure eh spec = Inr items \<and> g \<in> set gs \<and> [] \<in> set (group_tags g) \<longrightarrow>
             GroupModel Group (group_name g) None GROUP_DEPTH (groupItems eh g tagsMap) \<in> set items
             \<and> OperationModel (extendOperation pathName' path operationName operationInfo) None
                  (GROUP_DEPTH + 2) \<in> set (groupItems eh g tagsMap)))"
proof -
  let ?operation = "extendOperation pathName' path operationName operationInfo"
  let ?node = "OperationModel ?operation None (GROUP_DEPTH + 2)"
  let ?seeded = "seedTags (declaredTags spec) emptyTags"
  from assms(5) have "[] \<in> set (operationTags operationInfo)"
    by (auto simp: operationTags_def)
  then have filed: "?operation \<in> set (operationsUnder [] (paths spec))"
    using assms(2-4) by (simp add: operationsUnder_member)
  from filed have carried: "operationsUnder [] (paths spec) \<noteq> []" by auto
  from getTagsWithOperations_pushed [OF assms(1), of "[]"] dict_get_anonymous [of ?seeded] carried
  obtain tag where tag: "dict_get tagsMap [] = Own tag"
    by (auto simp: pushed_def)
  then have read: "tagOf (dict_get tagsMap []) = Some tag" by (simp add: tagOf_def)
  note collected = collected_tag [OF assms(1) read]
  from collected(3) filed
  have ops: "if isTrait tag then operations tag = [] else ?operation \<in> set (operations tag)"
    by simp
  have expand: "?node \<in> set (tagItems eh p tag)" if "\<not> isTrait tag" for p
    using that ops collected(1) by (auto simp: tagItems_def getOperationsItems_map)
  have ungrouped: "\<exists>items. buildStructure eh spec = Inr items \<and> ?node \<in> set items"
    if "\<not> isTrait tag" "x_tagGroups spec = None \<or> x_tagGroups spec = Some []"
    using buildStructure_ungrouped [OF assms(1) that(2), of eh]
      allTagsItems_entry [OF dict_get_Own_mem [OF tag], of eh] expand [OF that(1), of None]
    by auto
  have grouped: "GroupModel Group (group_name g) None GROUP_DEPTH (groupItems eh g tagsMap) \<in> set items
      \<and> ?node \<in> set (groupItems eh g tagsMap)"
    if "\<not> isTrait tag" "x_tagGroups spec = Some gs" "gs \<noteq> []"
      "buildStructure eh spec = Inr items" "g \<in> set gs" "[] \<in> set (group_tags g)"
    for gs g items
    using buildStructure_grouped [OF assms(1) that(2-4)] that(5)
      groupItems_entry [OF that(6) read, of eh] expand [OF that(1), of "Some (Group, group_name g)"]
    by auto
  from tag collected(1) ops ungrouped grouped show ?thesis by blast
qed

text \<open>The operation \<^verbatim>\<open>get /health\<close> of \<open>petstore\<close> has no tags.\<close>

theorem untagged_operation_is_hoisted_witness:
  "getTagsWithOperations petstore = Inr petstoreTags
   \<and> (''/health'', healthPath) \<in> set (paths petstore)
   \<and> (''get'', untagged ''health'') \<in> set (members healthPath)
   \<and> isOperationName ''get''
   \<and> tags (untagged ''health'') = None
   \<and> dict_get petstoreTags [] =
       Own \<lparr>name = [], description = None, x_traitTag = None, operations = [health], used = None\<rparr>
   \<and> x_tagGroups petstore = None
   \<and> buildStructure noHeadings petstore = Inr petstoreItems
   \<and> OperationModel health None 2 \<in> set petstoreItems"
proof -
  have hyps: "(''/health'', healthPath) \<in> set (paths petstore)"
    "(''get'', untagged ''health'') \<in> set (members healthPath)"
    "isOperationName ''get''"
    "tags (untagged ''health'') = None \<or> tags (untagged ''health'') = Some []"
    by (simp_all add: petstore_def healthPath_def untagged_def isOperationName_def
        operationNames_def)
  have entry: "dict_get petstoreTags [] =
       Own \<lparr>name = [], description = None, x_traitTag = None, operations = [health], used = None\<rparr>"
    by (simp add: petstoreTags_def healthTag_def dict_get_def)
  have none: "x_tagGroups petstore = None"
    by (simp add: petstore_def)
  from untagged_operation_is_hoisted [OF petstore_collected hyps, of noHeadings]
    hyps entry none petstore_collected petstore_built
  show ?thesis
    by (simp add: petstoreItems_def untagged_def)
qed

text \<open>
  Claim C8 as stated fails: in \<open>grouped\<close> the anonymous tag is expanded for the group
  \<^verbatim>\<open>General\<close>, and the operation \<^verbatim>\<open>get /health\<close> stands inside that Group, not at the
  top level.
\<close>

theorem grouped_untagged_operation_counterexample:
  "buildStructure noHeadings grouped = Inr [general]
   \<and> tags (untagged ''health'') = None
   \<and> health = extendOperation ''/health'' healthPath ''get'' (untagged ''health'')
   \<and> isGroupOf Group general
   \<and> itemsOf general = [OperationModel health None 2, petsInGeneral]
   \<and> OperationModel health None 2 \<notin> set [general]"
  by (simp add: grouped_built groupedItems_def)
     (simp add: general_def untagged_def health_def)

end
